theory Spec2Isabelle
  imports Main "HOL-Library.Sublist"
begin

section \<open>Python values used by the deprecation and report tools\<close>

text \<open>
  The exceptions that the modelled code can raise. \<open>SystemExit n\<close> is what
  \<^verbatim>\<open>sys.exit(n)\<close> raises; nothing in the modelled code catches it, so it ends the run
  with exit status \<open>n\<close>.
\<close>

datatype error = TypeError | KeyError | ValueError | IndexError | OSError | SystemExit nat

text \<open>
  A pkginfo plist is a dictionary that is only ever read by key (\<^verbatim>\<open>plist.get(k)\<close>,
  \<^verbatim>\<open>plist[k]\<close>, \<^verbatim>\<open>k in plist\<close>): a partial map from keys to string values.
  \<^verbatim>\<open>plist.get(k)\<close> is the application \<open>plist k\<close>, with \<open>None\<close> for Python's \<^verbatim>\<open>None\<close>.
\<close>

type_synonym plist = "string \<rightharpoonup> string"

text \<open>
  The pkginfo cache is a dictionary from pkginfo path to plist that the code iterates
  (\<^verbatim>\<open>cache.items()\<close>, \<^verbatim>\<open>for path in future_cache\<close>): an association list, whose order
  is the iteration order of the dictionary.
\<close>

type_synonym cache = "(string \<times> plist) list"

text \<open>
  A Python set of names is a list; its order stands for the iteration order of the set
  (which \<^verbatim>\<open>tuple(names_to_remove)\<close> exposes). A name is \<open>None\<close> when the pkginfo
  has no \<^verbatim>\<open>name\<close> key, since the code reads it with \<^verbatim>\<open>.get("name")\<close>.
\<close>

type_synonym name_set = "string option list"

definition dict_keys :: "('k \<times> 'v) list \<Rightarrow> 'k list" where
  "dict_keys d = map fst d"

definition dict_contains :: "('k \<times> 'v) list \<Rightarrow> 'k \<Rightarrow> bool" where
  "dict_contains d k = (k \<in> set (dict_keys d))"

definition dict_del :: "'k \<Rightarrow> ('k \<times> 'v) list \<Rightarrow> ('k \<times> 'v) list" where
  "dict_del k d = filter (\<lambda>kv. fst kv \<noteq> k) d"

section \<open>deprecate.py: get_names_to_remove\<close>

text \<open>
  Dictionaries are objects: \<^verbatim>\<open>dict(cache)\<close> allocates a new one and
  \<^verbatim>\<open>del future_cache[removal]\<close> updates an object in place. The store of dictionary
  objects is a list and a reference is an index into it. A reference held by the
  program always points at an allocated object (\<open>r < length h\<close>).
\<close>

type_synonym heap = "cache list"

definition dict_copy :: "nat \<Rightarrow> heap \<Rightarrow> nat \<times> heap" where
  "dict_copy r h = (length h, h @ [h ! r])"

text \<open>
  \<^verbatim>\<open>
  for removal in removals:
      if removal in future_cache:
          del future_cache[removal]
  \<close>
\<close>

fun del_removals :: "string list \<Rightarrow> nat \<Rightarrow> heap \<Rightarrow> heap" where
  "del_removals [] future_cache h = h"
| "del_removals (removal # removals) future_cache h =
     (if dict_contains (h ! future_cache) removal
      then del_removals removals future_cache
             (h[future_cache := dict_del removal (h ! future_cache)])
      else del_removals removals future_cache h)"

text \<open>
  \<^verbatim>\<open>{d[path].get("name") for path in paths if path in d}\<close>. For the remaining names the
  paths are the keys of \<open>d\<close> itself, so the lookup \<^verbatim>\<open>d[path]\<close> always succeeds there.
\<close>

definition names_at :: "cache \<Rightarrow> string list \<Rightarrow> name_set" where
  "names_at d paths =
     remdups (List.map_filter
       (\<lambda>path. case map_of d path of None \<Rightarrow> None | Some pkginfo \<Rightarrow> Some (pkginfo ''name''))
       paths)"

definition get_names_to_remove :: "string list \<Rightarrow> nat \<Rightarrow> heap \<Rightarrow> name_set \<times> heap" where
  "get_names_to_remove removals cache h =
     (let (future_cache, h1) = dict_copy cache h;
          h2 = del_removals removals future_cache h1;
          remaining_names = names_at (h2 ! future_cache) (dict_keys (h2 ! future_cache));
          removal_names = names_at (h2 ! cache) removals;
          names_to_remove = filter (\<lambda>n. n \<notin> set remaining_names) removal_names
      in (names_to_remove, h2))"

section \<open>deprecate.py: handle_name_removal\<close>

text \<open>
  What the program prints.
  \<^item> \<open>Removing item key\<close>: \<^verbatim>\<open>"\tRemoving {} from {}"\<close>;
  \<^item> \<open>Similar_item item\<close>: \<^verbatim>\<open>"\tDeprecator found item {} that may match a name to remove,
    but the length is wrong. Please remove manually if required!"\<close>;
  \<^item> \<open>Error_reading path\<close>: \<^verbatim>\<open>"Error reading manifest {}"\<close>;
  \<^item> \<open>Looking_in path\<close>: \<^verbatim>\<open>"Looking for name removals in {}"\<close>;
  \<^item> \<open>Multiple_refs pkg path\<close>: \<^verbatim>\<open>"WARNING: Package '{}' is targeted for removal, but has
    references in pkginfo '{}' which is not targeted for removal."\<close>;
  \<^item> \<open>Failed_to_create folder\<close>: \<^verbatim>\<open>"Failed to create archive directory {}! Quitting."\<close>.
\<close>

datatype message =
    Removing string string
  | Similar_item string
  | Error_reading string
  | Looking_in string
  | Multiple_refs "string option" string
  | Failed_to_create string

text \<open>
  \<^verbatim>\<open>item.startswith(tuple(names_to_remove))\<close> and \<^verbatim>\<open>item.endswith(...)\<close>: the
  elements of the tuple are tried in order, the first match answers \<^verbatim>\<open>True\<close>, and an
  element that is not a string (here \<^verbatim>\<open>None\<close>) raises \<^verbatim>\<open>TypeError\<close> when it is reached.
\<close>

fun startswith_tuple :: "string \<Rightarrow> name_set \<Rightarrow> error + bool" where
  "startswith_tuple item [] = Inr False"
| "startswith_tuple item (None # names) = Inl TypeError"
| "startswith_tuple item (Some n # names) =
     (if prefix n item then Inr True else startswith_tuple item names)"

fun endswith_tuple :: "string \<Rightarrow> name_set \<Rightarrow> error + bool" where
  "endswith_tuple item [] = Inr False"
| "endswith_tuple item (None # names) = Inl TypeError"
| "endswith_tuple item (Some n # names) =
     (if suffix n item then Inr True else endswith_tuple item names)"

text \<open>
  The first loop of \<open>handle_name_removal\<close>: it collects the items to remove and prints.
  \<^verbatim>\<open>
  for item in product_array:
      if item in names_to_remove:
          print "\tRemoving {} from {}".format(item, key)
          removals.append(item)
      elif (item.startswith(tuple(names_to_remove)) and not
            item.endswith(tuple(names_to_remove))):
          print ("\tDeprecator found item {} that may match ...").format(item)
  \<close>
  The result is the exception raised, if any, the list \<^verbatim>\<open>removals\<close> and the output.
\<close>

fun collect_removals ::
  "string list \<Rightarrow> name_set \<Rightarrow> string \<Rightarrow> string list \<Rightarrow> message list
   \<Rightarrow> error option \<times> string list \<times> message list" where
  "collect_removals [] names key removals out = (None, removals, out)"
| "collect_removals (item # items) names key removals out =
     (if Some item \<in> set names
      then collect_removals items names key (removals @ [item]) (out @ [Removing item key])
      else (case startswith_tuple item names of
              Inl e \<Rightarrow> (Some e, removals, out)
            | Inr False \<Rightarrow> collect_removals items names key removals out
            | Inr True \<Rightarrow>
                (case endswith_tuple item names of
                   Inl e \<Rightarrow> (Some e, removals, out)
                 | Inr True \<Rightarrow> collect_removals items names key removals out
                 | Inr False \<Rightarrow>
                     collect_removals items names key removals (out @ [Similar_item item]))))"

text \<open>\<^verbatim>\<open>list.remove(x)\<close> deletes the first occurrence of \<open>x\<close>, or raises \<^verbatim>\<open>ValueError\<close>.\<close>

fun list_remove :: "'a \<Rightarrow> 'a list \<Rightarrow> error + 'a list" where
  "list_remove x [] = Inl ValueError"
| "list_remove x (y # ys) =
     (if x = y then Inr ys
      else (case list_remove x ys of Inl e \<Rightarrow> Inl e | Inr ys' \<Rightarrow> Inr (y # ys')))"

text \<open>
  The second loop:
  \<^verbatim>\<open>
  for item in removals:
      product_array.remove(item)
      changes = True
  \<close>
\<close>

fun remove_collected ::
  "string list \<Rightarrow> string list \<Rightarrow> bool \<Rightarrow> (error + bool) \<times> string list" where
  "remove_collected [] product_array changes = (Inr changes, product_array)"
| "remove_collected (item # removals) product_array changes =
     (case list_remove item product_array of
        Inl e \<Rightarrow> (Inl e, product_array)
      | Inr product_array' \<Rightarrow> remove_collected removals product_array' True)"

text \<open>
  \<open>handle_name_removal\<close> returns \<^verbatim>\<open>changes\<close> or raises; the second component is the
  list \<^verbatim>\<open>product_array\<close> as the call leaves it (the list is updated in place), the third
  what was printed.
\<close>

definition handle_name_removal ::
  "string list \<Rightarrow> name_set \<Rightarrow> string \<Rightarrow> (error + bool) \<times> string list \<times> message list" where
  "handle_name_removal product_array names_to_remove key =
     (case collect_removals product_array names_to_remove key [] [] of
        (Some e, removals, out) \<Rightarrow> (Inl e, product_array, out)
      | (None, removals, out) \<Rightarrow>
          (case remove_collected removals product_array False of
             (changes, product_array') \<Rightarrow> (changes, product_array', out)))"

section \<open>deprecate.py: remove_names_from_manifests\<close>

text \<open>
  A manifest is a dictionary read by key only. \<open>arrays\<close> holds its keys whose value is
  an array of names (\<^verbatim>\<open>manifest.get(key)\<close> is \<open>arrays manifest key\<close>);
  \<open>conditional_items\<close> is \<open>None\<close> when the manifest has no such key, and otherwise the
  array of conditional sections, each a dictionary of the same kind.
\<close>

type_synonym ref_dict = "string \<rightharpoonup> string list"

record manifest =
  arrays :: ref_dict
  conditional_items :: "ref_dict list option"

text \<open>
  The repository on disk: the pkginfo files with their parse result (\<open>None\<close> for a file
  that does not parse), the paths that \<^verbatim>\<open>glob.glob(os.path.join(manifests_path, "*"))\<close>
  lists, and what \<^verbatim>\<open>FoundationPlist.readPlist\<close> gives for a path (\<open>None\<close> when it raises
  \<^verbatim>\<open>FoundationPlistException\<close>). \<^verbatim>\<open>FoundationPlist.writePlist\<close> is taken to succeed.
\<close>

record repo =
  pkgsinfo_files :: "(string \<times> plist option) list"
  manifests_glob :: "string list"
  manifest_at :: "string \<Rightarrow> manifest option"

text \<open>
  The trace of a run: what is printed, the rebuilding of the pkginfo cache, the reads and
  writes of manifest plists, and the files that \<^verbatim>\<open>shutil.move\<close> moved.
\<close>

datatype event =
    Print message
  | Build_cache
  | Read_plist string
  | Write_plist string manifest
  | Move_file string string

text \<open>
  Modelled from the spec: \<^verbatim>\<open>tools.build_pkginfo_cache\<close> is not among the sources. The spec
  has it load "every package-info record from the repository into an in-memory mapping
  keyed by file path, tolerating and recording per-file parse errors".
\<close>

definition build_pkginfo_cache :: "repo \<Rightarrow> cache" where
  "build_pkginfo_cache r =
     List.map_filter (\<lambda>(path, parsed). map_option (Pair path) parsed) (pkgsinfo_files r)"

definition dict_values :: "('k \<times> 'v) list \<Rightarrow> 'v list" where
  "dict_values d = map snd d"

definition manifest_keys :: "string list" where
  "manifest_keys = [''managed_installs'', ''optional_installs'', ''managed_updates'',
                    ''managed_uninstalls'']"

text \<open>
  \<^verbatim>\<open>
  for key in keys:
      product_array = manifest.get(key)
      if product_array:
          changes = handle_name_removal(product_array, names_to_remove, key)
          if changes:
              changed = True
  \<close>
  on the dictionary \<open>d\<close> (the manifest, or a conditional section with the label
  \<^verbatim>\<open>"conditional "\<close> before the key). The array is updated in place, so the dictionary
  holds the array as \<open>handle_name_removal\<close> leaves it.
\<close>

fun strip_keys ::
  "string \<Rightarrow> string list \<Rightarrow> name_set \<Rightarrow> ref_dict \<Rightarrow> bool
   \<Rightarrow> error option \<times> ref_dict \<times> bool \<times> message list" where
  "strip_keys label [] names d changed = (None, d, changed, [])"
| "strip_keys label (key # keys) names d changed =
     (case d key of
        None \<Rightarrow> strip_keys label keys names d changed
      | Some product_array \<Rightarrow>
          if product_array = [] then strip_keys label keys names d changed
          else (case handle_name_removal product_array names (label @ key) of
                  (Inl e, product_array', out) \<Rightarrow>
                    (Some e, d(key \<mapsto> product_array'), changed, out)
                | (Inr changes, product_array', out) \<Rightarrow>
                    (case strip_keys label keys names (d(key \<mapsto> product_array'))
                            (changed \<or> changes) of
                       (err, d', changed', out') \<Rightarrow> (err, d', changed', out @ out'))))"

text \<open>\<^verbatim>\<open>for conditional in conditionals: for key in keys: ...\<close>\<close>

fun strip_conditionals ::
  "name_set \<Rightarrow> ref_dict list \<Rightarrow> bool
   \<Rightarrow> error option \<times> ref_dict list \<times> bool \<times> message list" where
  "strip_conditionals names [] changed = (None, [], changed, [])"
| "strip_conditionals names (conditional # conditionals) changed =
     (case strip_keys ''conditional '' manifest_keys names conditional changed of
        (Some e, conditional', changed', out) \<Rightarrow>
          (Some e, conditional' # conditionals, changed', out)
      | (None, conditional', changed', out) \<Rightarrow>
          (case strip_conditionals names conditionals changed' of
             (err, conditionals', changed'', out') \<Rightarrow>
               (err, conditional' # conditionals', changed'', out @ out')))"

text \<open>The body of the loop over the manifests, from \<^verbatim>\<open>for key in keys\<close> on.\<close>

definition strip_manifest ::
  "name_set \<Rightarrow> manifest \<Rightarrow> error option \<times> manifest \<times> bool \<times> message list" where
  "strip_manifest names m =
     (case strip_keys [] manifest_keys names (arrays m) False of
        (Some e, d', changed, out) \<Rightarrow> (Some e, m\<lparr>arrays := d'\<rparr>, changed, out)
      | (None, d', changed, out) \<Rightarrow>
          (case conditional_items m of
             None \<Rightarrow> (None, m\<lparr>arrays := d'\<rparr>, changed, out)
           | Some conditionals \<Rightarrow>
               (case strip_conditionals names conditionals changed of
                  (err, conditionals', changed', out') \<Rightarrow>
                    (err, m\<lparr>arrays := d', conditional_items := Some conditionals'\<rparr>,
                     changed', out @ out'))))"

text \<open>
  \<^verbatim>\<open>
  for manifest_path in glob.glob(os.path.join(manifests_path, "*")):
      changed = False
      try:
          manifest = FoundationPlist.readPlist(manifest_path)
      except FoundationPlist.FoundationPlistException:
          print "Error reading manifest {}".format(manifest_path)
          continue
      print "Looking for name removals in {}".format(manifest_path)
      ...
      if changed:
          FoundationPlist.writePlist(manifest, manifest_path)
  \<close>
  An exception of the body is not caught: it ends the loop and the run.
\<close>

fun manifests_loop ::
  "name_set \<Rightarrow> string list \<Rightarrow> repo \<Rightarrow> error option \<times> repo \<times> event list" where
  "manifests_loop names [] r = (None, r, [])"
| "manifests_loop names (manifest_path # paths) r =
     (case manifest_at r manifest_path of
        None \<Rightarrow>
          (case manifests_loop names paths r of
             (err, r', trace) \<Rightarrow>
               (err, r', Read_plist manifest_path # Print (Error_reading manifest_path) # trace))
      | Some manifest \<Rightarrow>
          (case strip_manifest names manifest of
             (Some e, manifest', changed, out) \<Rightarrow>
               (Some e, r,
                Read_plist manifest_path # Print (Looking_in manifest_path) # map Print out)
           | (None, manifest', changed, out) \<Rightarrow>
               (if changed
                then (case manifests_loop names paths
                             (r\<lparr>manifest_at := (manifest_at r)(manifest_path \<mapsto> manifest')\<rparr>) of
                        (err, r', trace) \<Rightarrow>
                          (err, r',
                           Read_plist manifest_path # Print (Looking_in manifest_path)
                           # map Print out @ Write_plist manifest_path manifest' # trace))
                else (case manifests_loop names paths r of
                        (err, r', trace) \<Rightarrow>
                          (err, r',
                           Read_plist manifest_path # Print (Looking_in manifest_path)
                           # map Print out @ trace)))))"

definition remove_names_from_manifests ::
  "name_set \<Rightarrow> repo \<Rightarrow> error option \<times> repo \<times> event list" where
  "remove_names_from_manifests names r =
     (if names = [] then (None, r, [])
      else
        let cache = build_pkginfo_cache r;
            remaining_names = remdups (map (\<lambda>pkginfo. pkginfo ''name'') (dict_values cache));
            names_to_remove = filter (\<lambda>n. n \<notin> set remaining_names) names
        in (case manifests_loop names_to_remove (manifests_glob r) r of
              (err, r', trace) \<Rightarrow> (err, r', Build_cache # trace)))"

subsection \<open>What the manifest rewrite pass is to achieve\<close>

text \<open>
  The spec's words: "for each of the four reference-list keys, and recursively for each
  \<^verbatim>\<open>conditional_items\<close> entry, strip any item whose literal value equals a name in the
  final removal set". \<open>stripped S m\<close> is the manifest \<open>m\<close> so stripped of the names \<open>S\<close>,
  and \<open>has_removable S m\<close> says that some reference list of \<open>m\<close> holds a name of \<open>S\<close>.
\<close>

definition stripped_dict :: "string set \<Rightarrow> ref_dict \<Rightarrow> ref_dict" where
  "stripped_dict S d =
     (\<lambda>key. if key \<in> set manifest_keys
            then map_option (filter (\<lambda>item. item \<notin> S)) (d key) else d key)"

definition stripped :: "string set \<Rightarrow> manifest \<Rightarrow> manifest" where
  "stripped S m =
     m\<lparr>arrays := stripped_dict S (arrays m),
       conditional_items := map_option (map (stripped_dict S)) (conditional_items m)\<rparr>"

definition removable_in_dict :: "string set \<Rightarrow> ref_dict \<Rightarrow> bool" where
  "removable_in_dict S d =
     (\<exists>key \<in> set manifest_keys. \<exists>product_array. d key = Some product_array
        \<and> (\<exists>item \<in> set product_array. item \<in> S))"

definition has_removable :: "string set \<Rightarrow> manifest \<Rightarrow> bool" where
  "has_removable S m =
     (removable_in_dict S (arrays m)
      \<or> (\<exists>conditionals. conditional_items m = Some conditionals
           \<and> (\<exists>conditional \<in> set conditionals. removable_in_dict S conditional)))"

text \<open>
  The names that the pass strips: the requested names that are strings, less the names of
  the descriptors in the cache rebuilt from the repository as it is when the pass runs.
\<close>

definition final_names :: "name_set \<Rightarrow> repo \<Rightarrow> string set" where
  "final_names names r =
     {n. Some n \<in> set names}
     - {n. \<exists>pkginfo \<in> set (dict_values (build_pkginfo_cache r)). pkginfo ''name'' = Some n}"

section \<open>report.py: get_manifest_items\<close>

text \<open>
  \<^verbatim>\<open>manifests\<close> is a dictionary from manifest name to manifest; the code iterates its
  keys and looks each one up (\<^verbatim>\<open>manifests[manifest]\<close>). \<^verbatim>\<open>used_items\<close> is a set that
  is only ever added to.
\<close>

definition collections :: "string list" where
  "collections = [''managed_installs'', ''managed_uninstalls'', ''optional_installs'',
                  ''managed_updates'']"

text \<open>
  \<^verbatim>\<open>
  for collection in collections:
      items = d.get(collection)
      if items:
          used_items.update(items)
  \<close>
\<close>

fun update_from :: "string list \<Rightarrow> ref_dict \<Rightarrow> string set \<Rightarrow> string set" where
  "update_from [] d used_items = used_items"
| "update_from (collection # cs) d used_items =
     (case d collection of
        None \<Rightarrow> update_from cs d used_items
      | Some items \<Rightarrow>
          if items = [] then update_from cs d used_items
          else update_from cs d (used_items \<union> set items))"

fun update_from_conditionals :: "ref_dict list \<Rightarrow> string set \<Rightarrow> string set" where
  "update_from_conditionals [] used_items = used_items"
| "update_from_conditionals (conditional # conditionals) used_items =
     update_from_conditionals conditionals (update_from collections conditional used_items)"

text \<open>
  The loop \<^verbatim>\<open>for manifest in manifests\<close> over the keys \<open>names\<close>. \<^verbatim>\<open>manifests[manifest]\<close>
  raises \<^verbatim>\<open>KeyError\<close> for a name that is not a key;
  \<^verbatim>\<open>manifests[manifest].get("conditional_items", [])\<close> is the empty list when the manifest
  has no conditional sections.
\<close>

fun manifest_items_loop ::
  "string list \<Rightarrow> (string \<times> manifest) list \<Rightarrow> string set \<Rightarrow> error + string set" where
  "manifest_items_loop [] manifests used_items = Inr used_items"
| "manifest_items_loop (name # names) manifests used_items =
     (case map_of manifests name of
        None \<Rightarrow> Inl KeyError
      | Some m \<Rightarrow>
          manifest_items_loop names manifests
            (update_from_conditionals
               (case conditional_items m of None \<Rightarrow> [] | Some conditionals \<Rightarrow> conditionals)
               (update_from collections (arrays m) used_items)))"

definition get_manifest_items :: "(string \<times> manifest) list \<Rightarrow> error + string set" where
  "get_manifest_items manifests = manifest_items_loop (dict_keys manifests) manifests {}"

section \<open>deprecate.py: the removal planner\<close>

text \<open>
  \<^verbatim>\<open>os.path.join(a, b)\<close> of \<^verbatim>\<open>posixpath\<close>: an absolute \<open>b\<close> replaces \<open>a\<close>; otherwise \<open>b\<close> is
  appended, after a slash unless \<open>a\<close> is empty or ends with one.
\<close>

definition os_path_join :: "string \<Rightarrow> string \<Rightarrow> string" where
  "os_path_join a b =
     (if prefix ''/'' b then b
      else if a = [] \<or> suffix ''/'' a then a @ b
      else a @ ''/'' @ b)"

text \<open>
  \<open>get_removals_for_categories\<close>. \<open>pkg_prefix\<close> is the value of \<^verbatim>\<open>tools.get_pkg_path()\<close>,
  \<open>categories\<close> the list of category strings of the command line.
  \<^verbatim>\<open>
  for path, plist in cache.items():
      if plist.get("category") in categories:
          pkginfo_removals.append(path)
          if plist.get("installer_item_location"):
              pkg_removals.append(
                  os.path.join(pkg_prefix, plist["installer_item_location"]))
  return pkginfo_removals + pkg_removals
  \<close>
  \<^verbatim>\<open>plist.get(key)\<close> counts as true when the key is there with a non-empty string.
\<close>

fun removals_for_categories_loop ::
  "string \<Rightarrow> string list \<Rightarrow> cache \<Rightarrow> string list \<Rightarrow> string list \<Rightarrow> string list" where
  "removals_for_categories_loop pkg_prefix categories [] pkginfo_removals pkg_removals =
     pkginfo_removals @ pkg_removals"
| "removals_for_categories_loop pkg_prefix categories ((path, plist) # items)
       pkginfo_removals pkg_removals =
     (if (case plist ''category'' of None \<Rightarrow> False | Some c \<Rightarrow> c \<in> set categories)
      then (case plist ''installer_item_location'' of
              None \<Rightarrow>
                removals_for_categories_loop pkg_prefix categories items
                  (pkginfo_removals @ [path]) pkg_removals
            | Some location \<Rightarrow>
                if location \<noteq> []
                then removals_for_categories_loop pkg_prefix categories items
                       (pkginfo_removals @ [path])
                       (pkg_removals @ [os_path_join pkg_prefix location])
                else removals_for_categories_loop pkg_prefix categories items
                       (pkginfo_removals @ [path]) pkg_removals)
      else removals_for_categories_loop pkg_prefix categories items
             pkginfo_removals pkg_removals)"

definition get_removals_for_categories :: "string \<Rightarrow> string list \<Rightarrow> cache \<Rightarrow> string list" where
  "get_removals_for_categories pkg_prefix categories cache =
     removals_for_categories_loop pkg_prefix categories cache [] []"

text \<open>
  \<open>get_removals_from_plist\<close>. \<open>removals\<close> is \<^verbatim>\<open>data.get("removals")\<close> of the plist read
  from \<^verbatim>\<open>path\<close>: \<open>None\<close> when the key is missing (iterating it raises \<^verbatim>\<open>TypeError\<close>),
  otherwise the list of its items; \<^verbatim>\<open>item["path"]\<close> raises \<^verbatim>\<open>KeyError\<close> for an item
  without that key.
  \<^verbatim>\<open>
  pkginfo_removals = [item["path"] for item in data.get("removals") if
                      item["path"] in cache]
  \<close>
\<close>

fun plist_pkginfo_removals :: "plist list \<Rightarrow> cache \<Rightarrow> error + string list" where
  "plist_pkginfo_removals [] cache = Inr []"
| "plist_pkginfo_removals (item # items) cache =
     (case item ''path'' of
        None \<Rightarrow> Inl KeyError
      | Some path \<Rightarrow>
          (case plist_pkginfo_removals items cache of
             Inl e \<Rightarrow> Inl e
           | Inr paths \<Rightarrow> Inr (if dict_contains cache path then path # paths else paths)))"

text \<open>
  \<^verbatim>\<open>
  pkg_removals = [
      os.path.join(pkg_prefix, cache[pkginfo][pkg_key]) for
      pkginfo in pkginfo_removals if cache[pkginfo].get(pkg_key)]
  \<close>
\<close>

fun plist_pkg_removals :: "string \<Rightarrow> string list \<Rightarrow> cache \<Rightarrow> error + string list" where
  "plist_pkg_removals pkg_prefix [] cache = Inr []"
| "plist_pkg_removals pkg_prefix (pkginfo # pkginfo_removals) cache =
     (case map_of cache pkginfo of
        None \<Rightarrow> Inl KeyError
      | Some plist \<Rightarrow>
          (case plist_pkg_removals pkg_prefix pkginfo_removals cache of
             Inl e \<Rightarrow> Inl e
           | Inr pkgs \<Rightarrow>
               Inr (case plist ''installer_item_location'' of
                      None \<Rightarrow> pkgs
                    | Some location \<Rightarrow>
                        if location \<noteq> [] then os_path_join pkg_prefix location # pkgs
                        else pkgs)))"

definition get_removals_from_plist ::
  "string \<Rightarrow> plist list option \<Rightarrow> cache \<Rightarrow> error + string list" where
  "get_removals_from_plist pkg_prefix removals cache =
     (case removals of
        None \<Rightarrow> Inl TypeError
      | Some items \<Rightarrow>
          (case plist_pkginfo_removals items cache of
             Inl e \<Rightarrow> Inl e
           | Inr pkginfo_removals \<Rightarrow>
               (case plist_pkg_removals pkg_prefix pkginfo_removals cache of
                  Inl e \<Rightarrow> Inl e
                | Inr pkg_removals \<Rightarrow> Inr (pkginfo_removals @ pkg_removals))))"

text \<open>
  \<open>warn_about_multiple_refs\<close>: what it prints.
  \<^verbatim>\<open>
  for path, plist in cache.items():
      if (not path in removals and
              plist.get("installer_item_location") in removals):
          print ("WARNING: Package '{}' is targeted for removal, but has "
                 "references in pkginfo '{}' which is not targeted for "
                 "removal.".format(
                     plist.get("intaller_item_location"), path))
  \<close>
  \<open>removals\<close> is a list of strings, so \<^verbatim>\<open>None in removals\<close> is false.
\<close>

fun warn_about_multiple_refs :: "string list \<Rightarrow> cache \<Rightarrow> message list" where
  "warn_about_multiple_refs removals [] = []"
| "warn_about_multiple_refs removals ((path, plist) # items) =
     (if path \<notin> set removals
         \<and> (case plist ''installer_item_location'' of
               None \<Rightarrow> False
             | Some location \<Rightarrow> location \<in> set removals)
      then Multiple_refs (plist ''intaller_item_location'') path
           # warn_about_multiple_refs removals items
      else warn_about_multiple_refs removals items)"

section \<open>deprecate.py: make_folders and move_to_archive\<close>



text \<open>
  \<^verbatim>\<open>s.replace(old, new, 1)\<close>: the first occurrence of \<open>old\<close> is replaced; the empty string
  is returned as it is.
\<close>

fun replace_first :: "string \<Rightarrow> string \<Rightarrow> string \<Rightarrow> string" where
  "replace_first old new [] = []"
| "replace_first old new (c # cs) =
     (if prefix old (c # cs) then new @ drop (length old) (c # cs)
      else c # replace_first old new cs)"

text \<open>
  \<^verbatim>\<open>os.path.dirname(p)\<close> of \<^verbatim>\<open>posixpath\<close>: the part up to the last slash, without its
  trailing slashes unless it consists of slashes only.
\<close>

definition os_path_dirname :: "string \<Rightarrow> string" where
  "os_path_dirname p =
     (let head = rev (dropWhile (\<lambda>c. c \<noteq> CHR ''/'') (rev p))
      in if head \<noteq> [] \<and> head \<noteq> replicate (length head) (CHR ''/'')
         then rev (dropWhile (\<lambda>c. c = CHR ''/'') (rev head))
         else head)"



section \<open>report.py: OrphanedInstallerReport.run_report\<close>

text \<open>
  The folder \<^verbatim>\<open>pkgs\<close> of the repository: a directory has a name, its subdirectories and
  the names of its files. \<^verbatim>\<open>os.walk(top)\<close> lists a directory before its subdirectories,
  each as \<^verbatim>\<open>(dirpath, dirnames, filenames)\<close>; the loop of \<open>run_report\<close> leaves
  \<^verbatim>\<open>dirnames\<close> alone, so every subdirectory is visited.
\<close>

datatype dir = Dir (dir_name: string) (subdirs: "dir list") (dir_files: "string list")

fun os_walk :: "string \<Rightarrow> dir \<Rightarrow> (string \<times> string list \<times> string list) list" where
  "os_walk dirpath (Dir name ds files) =
     (dirpath, map dir_name ds, files)
     # concat (map (\<lambda>d. os_walk (os_path_join dirpath (dir_name d)) d) ds)"

text \<open>
  \<^verbatim>\<open>os.path.splitext(p)[1]\<close>: the extension starts at the last dot of the last path
  component, provided a character other than a dot comes before it in that component.
\<close>

definition splitext_ext :: "string \<Rightarrow> string" where
  "splitext_ext p =
     (let basename = rev (takeWhile (\<lambda>c. c \<noteq> CHR ''/'') (rev p));
          after_dot = rev (takeWhile (\<lambda>c. c \<noteq> CHR ''.'') (rev basename));
          stem = take (length basename - length after_dot - 1) basename
      in if CHR ''.'' \<in> set basename \<and> filter (\<lambda>c. c \<noteq> CHR ''.'') stem \<noteq> []
         then CHR ''.'' # after_dot else [])"

text \<open>\<^verbatim>\<open>s.upper()\<close> on the letters \<open>a\<close> to \<open>z\<close>.\<close>

definition upper_char :: "char \<Rightarrow> char" where
  "upper_char c =
     (if (97::nat) \<le> of_char c \<and> of_char c \<le> (122::nat)
      then char_of (of_char c - (32::nat)) else c)"

definition str_upper :: "string \<Rightarrow> string" where
  "str_upper s = map upper_char s"

text \<open>
  \<^verbatim>\<open>s.split(sep)\<close> for a separator that is not empty: the pieces of \<open>s\<close> between the
  occurrences of \<open>sep\<close>, found from the left. \<open>acc\<close> is the piece being read, reversed.
\<close>

function split_on :: "string \<Rightarrow> string \<Rightarrow> string \<Rightarrow> string list" where
  "split_on sep acc [] = [rev acc]"
| "split_on sep acc (c # cs) =
     (if sep \<noteq> [] \<and> prefix sep (c # cs)
      then rev acc # split_on sep [] (drop (length sep) (c # cs))
      else split_on sep (c # acc) cs)"
  by pat_completeness auto
termination
  by (relation "measure (\<lambda>(sep, acc, s). length s)") (auto simp: neq_Nil_conv)

text \<open>
  \<^verbatim>\<open>s.split(sep)[1]\<close>: \<^verbatim>\<open>ValueError\<close> for the empty separator, \<^verbatim>\<open>IndexError\<close> when \<open>sep\<close>
  does not occur in \<open>s\<close>.
\<close>

definition split_second :: "string \<Rightarrow> string \<Rightarrow> error + string" where
  "split_second sep s =
     (if sep = [] then Inl ValueError
      else (case split_on sep [] s of
              first # second # pieces \<Rightarrow> Inr second
            | _ \<Rightarrow> Inl IndexError))"

text \<open>
  \<^verbatim>\<open>
  for filename in filenames:
      rel_filename = os.path.join(rel_path, filename)
      rel_filename = (rel_filename[1:] if
                      rel_filename.startswith("/") else rel_filename)
      if rel_filename not in used_packages:
          item_path = os.path.join(dirpath, filename)
          result = {"path": item_path}
          self.items.append(result)
  \<close>
  An item of the report is its \<^verbatim>\<open>path\<close>.
\<close>

fun orphaned_files :: "string list \<Rightarrow> string \<Rightarrow> string \<Rightarrow> string list \<Rightarrow> string list" where
  "orphaned_files used_packages dirpath rel_path [] = []"
| "orphaned_files used_packages dirpath rel_path (filename # filenames) =
     (let joined = os_path_join rel_path filename;
          rel_filename = (if prefix ''/'' joined then drop 1 joined else joined)
      in if rel_filename \<notin> set used_packages
         then os_path_join dirpath filename
              # orphaned_files used_packages dirpath rel_path filenames
         else orphaned_files used_packages dirpath rel_path filenames)"

text \<open>
  The loop over \<^verbatim>\<open>os.walk(pkgs_dir)\<close>, with the set \<^verbatim>\<open>bundle_packages\<close> and the items
  collected so far.
  \<^verbatim>\<open>
  if any(bundle_pkg in dirpath for bundle_pkg in bundle_packages):
      # Contents of a bundle.
      continue
  elif os.path.splitext(dirpath)[1].upper() in (".PKG", ".MPKG"):
      # This is a non-flat package. Check for the dirname only,
      # then move on to the next iteration.
      if dirpath not in used_packages:
          self.items.append({"path": dirpath})
          bundle_packages.add(dirpath)
      continue
  rel_path = dirpath.split(pkgs_dir)[1]
  \<close>
  \<^verbatim>\<open>bundle_pkg in dirpath\<close> is the substring test.
\<close>

fun orphan_loop ::
  "string list \<Rightarrow> string \<Rightarrow> (string \<times> string list \<times> string list) list
   \<Rightarrow> string list \<Rightarrow> string list \<Rightarrow> error + string list" where
  "orphan_loop used_packages pkgs_dir [] bundle_packages items = Inr items"
| "orphan_loop used_packages pkgs_dir ((dirpath, dirnames, filenames) # walk)
       bundle_packages items =
     (if \<exists>bundle_pkg \<in> set bundle_packages. sublist bundle_pkg dirpath
      then orphan_loop used_packages pkgs_dir walk bundle_packages items
      else if str_upper (splitext_ext dirpath) \<in> {''.PKG'', ''.MPKG''}
      then (if dirpath \<notin> set used_packages
            then orphan_loop used_packages pkgs_dir walk
                   (bundle_packages @ [dirpath]) (items @ [dirpath])
            else orphan_loop used_packages pkgs_dir walk bundle_packages items)
      else (case split_second pkgs_dir dirpath of
              Inl e \<Rightarrow> Inl e
            | Inr rel_path \<Rightarrow>
                orphan_loop used_packages pkgs_dir walk bundle_packages
                  (items @ orphaned_files used_packages dirpath rel_path filenames)))"

text \<open>
  \<open>run_report\<close> on the pkginfo cache \<^verbatim>\<open>repo_data["pkgsinfo"]\<close>, the repository path
  \<^verbatim>\<open>repo_data["munki_repo"]\<close> and the directory found at \<^verbatim>\<open>pkgs_dir\<close>; the result is the
  list \<^verbatim>\<open>self.items\<close>.
  \<^verbatim>\<open>
  used_packages = {pkginfo[search_key] for pkginfo in
                   repo_data["pkgsinfo"].values() if search_key in pkginfo}
  pkgs_dir = os.path.join(repo_data["munki_repo"], "pkgs")
  \<close>
\<close>

definition run_report :: "cache \<Rightarrow> string \<Rightarrow> dir \<Rightarrow> error + string list" where
  "run_report pkgsinfo munki_repo pkgs =
     (let used_packages =
            remdups (List.map_filter (\<lambda>pkginfo. pkginfo ''installer_item_location'')
                       (dict_values pkgsinfo));
          pkgs_dir = os_path_join munki_repo ''pkgs''
      in orphan_loop used_packages pkgs_dir (os_walk pkgs_dir pkgs) [] [])"

section \<open>An example repository\<close>

text \<open>
  Two versions of product \<open>A\<close> in category \<open>apps\<close>, the second with an installer, and
  a product \<open>B\<close> of another category whose pkginfo names the same installer.
\<close>

definition pkginfo_A1 :: plist where
  "pkginfo_A1 = [''name'' \<mapsto> ''A'', ''category'' \<mapsto> ''apps'']"

definition pkginfo_A2 :: plist where
  "pkginfo_A2 = [''name'' \<mapsto> ''A'', ''category'' \<mapsto> ''apps'',
                 ''installer_item_location'' \<mapsto> ''a.pkg'']"

definition pkginfo_B1 :: plist where
  "pkginfo_B1 = [''name'' \<mapsto> ''B'', ''category'' \<mapsto> ''tools'',
                 ''installer_item_location'' \<mapsto> ''a.pkg'']"

definition example_cache :: cache where
  "example_cache = [(''pkgsinfo/A-1.0'', pkginfo_A1), (''pkgsinfo/A-2.0'', pkginfo_A2),
                    (''pkgsinfo/B-1.0'', pkginfo_B1)]"

definition example_removals :: "string list" where
  "example_removals = [''pkgsinfo/A-1.0'', ''pkgsinfo/A-2.0'', ''pkgs/a.pkg'']"

text \<open>
  The repository after both versions of \<open>A\<close> were deleted: the pkginfo of \<open>B\<close> and a
  pkginfo that does not parse; three manifest files, the last of which cannot be read.
\<close>

definition manifest_site :: manifest where
  "manifest_site =
     \<lparr>arrays = [''managed_installs'' \<mapsto> [''A'', ''B''], ''optional_installs'' \<mapsto> [''AB'']],
      conditional_items = Some [[''managed_updates'' \<mapsto> [''A'']]]\<rparr>"

definition manifest_lab :: manifest where
  "manifest_lab =
     \<lparr>arrays = [''managed_installs'' \<mapsto> [''B'']], conditional_items = None\<rparr>"

definition example_repo :: repo where
  "example_repo =
     \<lparr>pkgsinfo_files = [(''pkgsinfo/B-1.0'', Some pkginfo_B1), (''pkgsinfo/bad'', None)],
      manifests_glob = [''manifests/site'', ''manifests/lab'', ''manifests/broken''],
      manifest_at = [''manifests/site'' \<mapsto> manifest_site, ''manifests/lab'' \<mapsto> manifest_lab]\<rparr>"

definition example_names :: name_set where
  "example_names = [Some ''A'', Some ''B'']"

text \<open>The paths of the manifests written and of the reads, in the order of a trace.\<close>

definition written_paths :: "event list \<Rightarrow> string list" where
  "written_paths trace =
     List.map_filter (\<lambda>e. case e of Write_plist p m \<Rightarrow> Some p | _ \<Rightarrow> None) trace"

definition read_paths :: "event list \<Rightarrow> string list" where
  "read_paths trace =
     List.map_filter (\<lambda>e. case e of Read_plist p \<Rightarrow> Some p | _ \<Rightarrow> None) trace"

text \<open>A removal plist that names both versions of \<open>A\<close> and a pkginfo that is gone.\<close>

definition example_plist :: "plist list option" where
  "example_plist = Some [[''path'' \<mapsto> ''pkgsinfo/A-1.0''], [''path'' \<mapsto> ''pkgsinfo/A-2.0''],
                          [''path'' \<mapsto> ''pkgsinfo/Old-0.1'']]"





text \<open>
  A \<^verbatim>\<open>pkgs\<close> folder with a flat installer and the bundle \<^verbatim>\<open>Foo.pkg\<close>; a pkginfo cache
  that names the bundle by its full path, and one that names it relative to \<^verbatim>\<open>pkgs\<close>.
\<close>

definition example_pkgs :: dir where
  "example_pkgs =
     Dir ''pkgs''
       [Dir ''Foo.pkg'' [Dir ''Contents'' [] [''Info.plist'', ''PkgInfo'']] []]
       [''tool.dmg'']"

definition cache_full_path :: cache where
  "cache_full_path =
     [(''pkgsinfo/Foo-1.0'', [''name'' \<mapsto> ''Foo'',
                              ''installer_item_location'' \<mapsto> ''/repo/pkgs/Foo.pkg'']),
      (''pkgsinfo/tool-1.0'', [''name'' \<mapsto> ''tool'',
                               ''installer_item_location'' \<mapsto> ''tool.dmg''])]"

definition cache_relative :: cache where
  "cache_relative =
     [(''pkgsinfo/Foo-1.0'', [''name'' \<mapsto> ''Foo'',
                              ''installer_item_location'' \<mapsto> ''Foo.pkg'']),
      (''pkgsinfo/tool-1.0'', [''name'' \<mapsto> ''tool'',
                               ''installer_item_location'' \<mapsto> ''tool.dmg''])]"

text \<open>
  A cache in which one pkginfo has no \<^verbatim>\<open>name\<close> key, and the repository after both
  pkginfo files of that cache were deleted: \<open>B\<close> is left, and two manifests refer to
  \<open>Foo\<close>.
\<close>

definition cache_nameless :: cache where
  "cache_nameless =
     [(''pkgsinfo/Foo-1.0'', [''name'' \<mapsto> ''Foo'', ''category'' \<mapsto> ''apps'']),
      (''pkgsinfo/nameless'', [''category'' \<mapsto> ''apps''])]"

definition names_with_None :: name_set where
  "names_with_None = [Some ''Foo'', None]"

definition manifest_two_lists :: manifest where
  "manifest_two_lists =
     \<lparr>arrays = [''managed_installs'' \<mapsto> [''Foo''], ''optional_installs'' \<mapsto> [''Bar'']],
      conditional_items = None\<rparr>"

definition manifest_one_list :: manifest where
  "manifest_one_list =
     \<lparr>arrays = [''managed_installs'' \<mapsto> [''Foo'']], conditional_items = None\<rparr>"

definition repo_nameless :: repo where
  "repo_nameless =
     \<lparr>pkgsinfo_files = [(''pkgsinfo/B-1.0'', Some pkginfo_B1)],
      manifests_glob = [''manifests/site'', ''manifests/lab''],
      manifest_at = [''manifests/site'' \<mapsto> manifest_two_lists,
                     ''manifests/lab'' \<mapsto> manifest_one_list]\<rparr>"

section \<open>Proofs\<close>

lemma del_removals_length: "length (del_removals rs fc h) = length h"
  by (induction rs arbitrary: h) auto

lemma del_removals_other:
  "a \<noteq> fc \<Longrightarrow> del_removals rs fc h ! a = h ! a"
  by (induction rs arbitrary: h) auto

lemma del_removals_at:
  "fc < length h \<Longrightarrow>
   del_removals rs fc h ! fc = filter (\<lambda>kv. fst kv \<notin> set rs) (h ! fc)"
proof (induction rs arbitrary: h)
  case Nil
  then show ?case by simp
next
  case (Cons r rs)
  have absent: "filter (\<lambda>kv. fst kv \<noteq> r) d = d" if "\<not> dict_contains d r" for d :: cache
    using that by (auto simp: dict_contains_def dict_keys_def intro!: filter_True)
  show ?case
  proof (cases "dict_contains (h ! fc) r")
    case True
    then show ?thesis
      using Cons.IH [of "h[fc := dict_del r (h ! fc)]"] Cons.prems
      by (simp add: dict_del_def conj_commute)
  next
    case False
    have "filter (\<lambda>kv. fst kv \<notin> set (r # rs)) (h ! fc)
          = filter (\<lambda>kv. fst kv \<notin> set rs) (filter (\<lambda>kv. fst kv \<noteq> r) (h ! fc))"
      by (simp add: conj_commute)
    then show ?thesis
      using False Cons.IH [of h] Cons.prems absent [OF False] by simp
  qed
qed

lemma map_of_filter_keys:
  "map_of (filter (\<lambda>kv. fst kv \<notin> R) d) p = (if p \<in> R then None else map_of d p)"
  by (induction d) auto

lemma set_map_filter_conv:
  "set (List.map_filter f xs) = {y. \<exists>x. x \<in> set xs \<and> f x = Some y}"
  by (induction xs) (auto simp: List.map_filter_simps split: option.splits)

lemma set_names_at:
  "set (names_at d paths) =
     {pkginfo ''name'' | path pkginfo. path \<in> set paths \<and> map_of d path = Some pkginfo}"
  unfolding names_at_def set_remdups set_map_filter_conv
  by (auto split: option.splits)

lemma get_names_to_remove_heap:
  assumes "cache < length h"
  shows "snd (get_names_to_remove removals cache h) =
           h @ [filter (\<lambda>kv. fst kv \<notin> set removals) (h ! cache)]"
proof -
  let ?h1 = "h @ [h ! cache]"
  let ?h2 = "del_removals removals (length h) ?h1"
  have len: "length ?h2 = Suc (length h)"
    by (simp add: del_removals_length)
  have last: "?h2 ! length h = filter (\<lambda>kv. fst kv \<notin> set removals) (h ! cache)"
    using del_removals_at [of "length h" ?h1 removals] by simp
  have old: "?h2 ! a = h ! a" if "a < length h" for a
    using that del_removals_other [of a "length h" removals ?h1] by (simp add: nth_append)
  have "?h2 = h @ [filter (\<lambda>kv. fst kv \<notin> set removals) (h ! cache)]"
    by (rule nth_equalityI) (auto simp: len last old nth_append less_Suc_eq)
  then show ?thesis
    by (simp add: get_names_to_remove_def dict_copy_def Let_def)
qed

lemma get_names_to_remove_names:
  assumes "cache < length h"
  shows "fst (get_names_to_remove removals cache h) =
           filter (\<lambda>n. n \<notin> set (names_at (filter (\<lambda>kv. fst kv \<notin> set removals) (h ! cache))
                                    (dict_keys (filter (\<lambda>kv. fst kv \<notin> set removals) (h ! cache)))))
             (names_at (h ! cache) removals)"
proof -
  let ?h1 = "h @ [h ! cache]"
  let ?h2 = "del_removals removals (length h) ?h1"
  have last: "?h2 ! length h = filter (\<lambda>kv. fst kv \<notin> set removals) (h ! cache)"
    using del_removals_at [of "length h" ?h1 removals] by simp
  have old: "?h2 ! cache = h ! cache"
    using assms del_removals_other [of cache "length h" removals ?h1] by (simp add: nth_append)
  show ?thesis
    by (simp add: get_names_to_remove_def dict_copy_def Let_def last old)
qed

lemma remaining_names_set:
  "set (names_at (filter (\<lambda>kv. fst kv \<notin> R) d) (dict_keys (filter (\<lambda>kv. fst kv \<notin> R) d))) =
     {pkginfo ''name'' | path pkginfo. path \<notin> R \<and> map_of d path = Some pkginfo}"
proof -
  have "path \<in> set (dict_keys (filter (\<lambda>kv. fst kv \<notin> R) d))"
    if "path \<notin> R" "map_of d path = Some pkginfo" for path pkginfo
    using that map_of_SomeD [of d path pkginfo] by (force simp: dict_keys_def)
  then show ?thesis
    unfolding set_names_at map_of_filter_keys by (auto split: if_splits)
qed

text \<open>
  C1. The names returned by \<open>get_names_to_remove\<close> are the names of the descriptors
  whose path is in the removal list, minus the names of the descriptors that survive
  (those of the cache whose path is not in the removal list); so no returned name
  belongs to a surviving descriptor.
\<close>

theorem get_names_to_remove_correct:
  assumes "cache < length h"
  shows "set (fst (get_names_to_remove removals cache h)) =
           {pkginfo ''name'' | path pkginfo.
              path \<in> set removals \<and> map_of (h ! cache) path = Some pkginfo}
           - {pkginfo ''name'' | path pkginfo.
              path \<notin> set removals \<and> map_of (h ! cache) path = Some pkginfo}
         \<and> set (fst (get_names_to_remove removals cache h))
           \<inter> {pkginfo ''name'' | path pkginfo.
              path \<notin> set removals \<and> map_of (h ! cache) path = Some pkginfo} = {}"
proof -
  let ?removed = "{pkginfo ''name'' | path pkginfo.
                     path \<in> set removals \<and> map_of (h ! cache) path = Some pkginfo}"
  let ?surviving = "{pkginfo ''name'' | path pkginfo.
                       path \<notin> set removals \<and> map_of (h ! cache) path = Some pkginfo}"
  have "set (fst (get_names_to_remove removals cache h)) = ?removed - ?surviving"
    unfolding get_names_to_remove_names [OF assms] set_filter remaining_names_set
    by (simp only: set_names_at) blast
  then show ?thesis by blast
qed

theorem get_names_to_remove_correct_witness:
  "(0::nat) < length [example_cache]
   \<and> fst (get_names_to_remove example_removals 0 [example_cache]) = [Some ''A'']
   \<and> set [Some ''A'']
       \<inter> {pkginfo ''name'' | path pkginfo.
            path \<notin> set example_removals \<and> map_of ([example_cache] ! 0) path = Some pkginfo} = {}"
proof -
  have h: "(0::nat) < length [example_cache]" by simp
  have e: "fst (get_names_to_remove example_removals 0 [example_cache]) = [Some ''A'']"
    by code_simp
  from get_names_to_remove_correct [OF h, of example_removals]
  have d: "set [Some ''A'']
       \<inter> {pkginfo ''name'' | path pkginfo.
            path \<notin> set example_removals \<and> map_of ([example_cache] ! 0) path = Some pkginfo} = {}"
    unfolding e by (rule conjunct2)
  show ?thesis by (intro conjI h e d)
qed

text \<open>
  C10. \<open>get_names_to_remove\<close> leaves every dictionary that existed before the call as
  it was, the cache among them: the deletions go to the copy, a new object.
\<close>

theorem get_names_to_remove_cache_unchanged:
  assumes "cache < length h"
  shows "snd (get_names_to_remove removals cache h) ! cache = h ! cache
         \<and> take (length h) (snd (get_names_to_remove removals cache h)) = h"
  using assms by (simp add: get_names_to_remove_heap [OF assms] nth_append)

theorem get_names_to_remove_cache_unchanged_witness:
  "(0::nat) < length [example_cache]
   \<and> snd (get_names_to_remove example_removals 0 [example_cache]) ! 0 = [example_cache] ! 0
   \<and> fst (get_names_to_remove example_removals 0 [example_cache]) = [Some ''A'']"
proof -
  have h: "(0::nat) < length [example_cache]" by simp
  have e: "fst (get_names_to_remove example_removals 0 [example_cache]) = [Some ''A'']"
    by code_simp
  from get_names_to_remove_cache_unchanged [OF h, of example_removals]
  have u: "snd (get_names_to_remove example_removals 0 [example_cache]) ! 0 = [example_cache] ! 0"
    by (rule conjunct1)
  show ?thesis by (intro conjI h u e)
qed

lemma startswith_tuple_Inl:
  "startswith_tuple item names = Inl e \<Longrightarrow> e = TypeError \<and> None \<in> set names"
  by (induction item names rule: startswith_tuple.induct) (auto split: if_splits)

lemma endswith_tuple_Inl:
  "endswith_tuple item names = Inl e \<Longrightarrow> e = TypeError \<and> None \<in> set names"
  by (induction item names rule: endswith_tuple.induct) (auto split: if_splits)

lemma collect_removals_error:
  "collect_removals items names key removals out = (Some e, removals', out')
   \<Longrightarrow> e = TypeError \<and> None \<in> set names"
proof (induction items names key removals out rule: collect_removals.induct)
  case (1 names key removals out)
  then show ?case by simp
next
  case (2 item items names key removals out)
  then show ?case
    by (auto split: if_splits sum.splits bool.splits
             dest: startswith_tuple_Inl endswith_tuple_Inl)
qed

lemma collect_removals_list:
  "collect_removals items names key removals out = (None, removals', out')
   \<Longrightarrow> removals' = removals @ filter (\<lambda>item. Some item \<in> set names) items"
proof (induction items names key removals out rule: collect_removals.induct)
  case (1 names key removals out)
  then show ?case by simp
next
  case (2 item items names key removals out)
  then show ?case
    by (auto split: if_splits sum.splits bool.splits)
qed

lemma list_remove_first:
  "x \<notin> set xs \<Longrightarrow> list_remove x (xs @ x # ys) = Inr (xs @ ys)"
  by (induction xs) auto

lemma remove_collected_filter:
  "\<forall>x \<in> set xs. \<not> P x \<Longrightarrow>
   remove_collected (filter P ys) (xs @ ys) changes =
     (Inr (changes \<or> (\<exists>y \<in> set ys. P y)), xs @ filter (\<lambda>y. \<not> P y) ys)"
proof (induction ys arbitrary: xs changes)
  case Nil
  then show ?case by simp
next
  case (Cons y ys)
  show ?case
  proof (cases "P y")
    case True
    with Cons.prems have "y \<notin> set xs" by blast
    then have "list_remove y (xs @ y # ys) = Inr (xs @ ys)"
      by (rule list_remove_first)
    with True Cons.IH [OF Cons.prems, of True] show ?thesis by simp
  next
    case False
    with Cons.prems have "\<forall>x \<in> set (xs @ [y]). \<not> P x" by simp
    from Cons.IH [OF this, of changes] False show ?thesis by auto
  qed
qed

lemma handle_name_removal_cases:
  "(case handle_name_removal product_array names key of
      (Inr changes, product_array', out) \<Rightarrow>
        product_array' = filter (\<lambda>item. Some item \<notin> set names) product_array
        \<and> changes = (\<exists>item \<in> set product_array. Some item \<in> set names)
    | (Inl e, product_array', out) \<Rightarrow>
        e = TypeError \<and> None \<in> set names \<and> product_array' = product_array)"
proof (cases "collect_removals product_array names key [] []")
  case (fields err removals out)
  show ?thesis
  proof (cases err)
    case None
    with fields have "removals = filter (\<lambda>item. Some item \<in> set names) product_array"
      using collect_removals_list [of product_array names key "[]" "[]" removals out] by simp
    then have "remove_collected removals product_array False =
        (Inr (\<exists>item \<in> set product_array. Some item \<in> set names),
         filter (\<lambda>item. Some item \<notin> set names) product_array)"
      using remove_collected_filter [of "[]" "\<lambda>item. Some item \<in> set names" product_array False]
      by simp
    with fields None show ?thesis by (simp add: handle_name_removal_def)
  next
    case (Some e)
    with fields have "e = TypeError \<and> None \<in> set names"
      using collect_removals_error [of product_array names key "[]" "[]" e removals out] by simp
    with fields Some show ?thesis by (simp add: handle_name_removal_def)
  qed
qed

lemma startswith_tuple_True:
  "startswith_tuple item names = Inr True \<Longrightarrow> \<exists>n. Some n \<in> set names \<and> prefix n item"
  by (induction item names rule: startswith_tuple.induct) (auto split: if_splits)

lemma endswith_tuple_False:
  "endswith_tuple item names = Inr False \<Longrightarrow> \<not> (\<exists>n. Some n \<in> set names \<and> suffix n item)"
  by (induction item names rule: endswith_tuple.induct) (auto split: if_splits)

lemma collect_removals_output:
  "collect_removals items names key removals out = (err, removals', out') \<Longrightarrow>
   set out' \<subseteq> set out
     \<union> {Removing item key | item. item \<in> set items \<and> Some item \<in> set names}
     \<union> {Similar_item item | item. item \<in> set items \<and> Some item \<notin> set names
          \<and> (\<exists>n. Some n \<in> set names \<and> prefix n item)
          \<and> \<not> (\<exists>n. Some n \<in> set names \<and> suffix n item)}"
proof (induction items arbitrary: removals out)
  case Nil
  then show ?case by auto
next
  case (Cons item items)
  let ?similar = "\<lambda>item. Some item \<notin> set names
          \<and> (\<exists>n. Some n \<in> set names \<and> prefix n item)
          \<and> \<not> (\<exists>n. Some n \<in> set names \<and> suffix n item)"
  from Cons.prems have
    "out' = out
     \<or> (\<exists>r out1. collect_removals items names key r out1 = (err, removals', out')
          \<and> (out1 = out
               \<or> (out1 = out @ [Removing item key] \<and> Some item \<in> set names)
               \<or> (out1 = out @ [Similar_item item] \<and> Some item \<notin> set names
                    \<and> startswith_tuple item names = Inr True
                    \<and> endswith_tuple item names = Inr False)))"
    by (auto split: if_splits sum.splits bool.splits)
  then consider
      (stop) "out' = out"
    | (goes_on) r out1 where "collect_removals items names key r out1 = (err, removals', out')"
        "out1 = out \<or> (out1 = out @ [Removing item key] \<and> Some item \<in> set names)
         \<or> (out1 = out @ [Similar_item item] \<and> ?similar item)"
    using startswith_tuple_True [of item names] endswith_tuple_False [of item names]
    by blast
  then show ?case
  proof cases
    case stop
    then show ?thesis by auto
  next
    case goes_on
    from Cons.IH [OF goes_on(1)] have
      "set out' \<subseteq> set out1
         \<union> {Removing item key | item. item \<in> set items \<and> Some item \<in> set names}
         \<union> {Similar_item item | item. item \<in> set items \<and> ?similar item}" .
    moreover have "set out1 \<subseteq> set out
         \<union> {Removing i key | i. i \<in> set (item # items) \<and> Some i \<in> set names}
         \<union> {Similar_item i | i. i \<in> set (item # items) \<and> ?similar i}"
      using goes_on(2) by auto
    ultimately show ?thesis by auto
  qed
qed

lemma handle_name_removal_output:
  "set (snd (snd (handle_name_removal product_array names key))) \<subseteq>
     {Removing item key | item. item \<in> set product_array \<and> Some item \<in> set names}
     \<union> {Similar_item item | item. item \<in> set product_array \<and> Some item \<notin> set names
          \<and> (\<exists>n. Some n \<in> set names \<and> prefix n item)
          \<and> \<not> (\<exists>n. Some n \<in> set names \<and> suffix n item)}"
proof (cases "collect_removals product_array names key [] []")
  case (fields err removals out)
  from collect_removals_output [OF fields] have
    "set out \<subseteq>
       {Removing item key | item. item \<in> set product_array \<and> Some item \<in> set names}
       \<union> {Similar_item item | item. item \<in> set product_array \<and> Some item \<notin> set names
            \<and> (\<exists>n. Some n \<in> set names \<and> prefix n item)
            \<and> \<not> (\<exists>n. Some n \<in> set names \<and> suffix n item)}"
    by simp
  moreover have "snd (snd (handle_name_removal product_array names key)) = out"
    using fields by (cases err) (auto simp: handle_name_removal_def split: prod.splits)
  ultimately show ?thesis by simp
qed

text \<open>
  When \<open>handle_name_removal\<close> returns, the list holds exactly the entries that are
  not equal to a name of the removal set, in their order, and \<^verbatim>\<open>changes\<close> says whether
  an entry was equal to one: an entry that only starts with a removal name stays. The
  call raises only \<^verbatim>\<open>TypeError\<close>, only when the set holds \<^verbatim>\<open>None\<close> (a pkginfo without
  a name), and then the list is untouched. Whatever is printed is about an entry
  of the list: a removal for an entry equal to a removal name, a warning for an entry that
  is not equal to one, starts with one and ends with none.
\<close>

lemma handle_name_removal_exact_match:
  "(case handle_name_removal product_array names key of
      (Inr changes, product_array', out) \<Rightarrow>
        product_array' = filter (\<lambda>item. Some item \<notin> set names) product_array
        \<and> changes = (\<exists>item \<in> set product_array. Some item \<in> set names)
    | (Inl e, product_array', out) \<Rightarrow>
        e = TypeError \<and> None \<in> set names \<and> product_array' = product_array)
   \<and> set (snd (snd (handle_name_removal product_array names key))) \<subseteq>
       {Removing item key | item. item \<in> set product_array \<and> Some item \<in> set names}
       \<union> {Similar_item item | item. item \<in> set product_array \<and> Some item \<notin> set names
            \<and> (\<exists>n. Some n \<in> set names \<and> prefix n item)
            \<and> \<not> (\<exists>n. Some n \<in> set names \<and> suffix n item)}"
  by (intro conjI handle_name_removal_cases handle_name_removal_output)

lemma handle_name_removal_example:
  "handle_name_removal [''Foo'', ''FooBar'', ''X'', ''Foo''] [Some ''Foo''] ''managed_installs'' =
     (Inr True, [''FooBar'', ''X''],
      [Removing ''Foo'' ''managed_installs'', Similar_item ''FooBar'',
       Removing ''Foo'' ''managed_installs''])"
  by code_simp

text \<open>
  C2. A pkginfo without a name puts \<^verbatim>\<open>None\<close> into the set that \<open>get_names_to_remove\<close>
  returns. With that set, in either order of its tuple, \<open>handle_name_removal\<close> on the
  list \<^verbatim>\<open>['Foo', 'Bar']\<close> raises \<^verbatim>\<open>TypeError\<close> at \<^verbatim>\<open>'Bar'\<close>, before the loop that
  removes: the entry \<^verbatim>\<open>'Foo'\<close>, equal to a name of the set, stays in the list.
\<close>

theorem handle_name_removal_None_keeps_exact_match:
  "fst (get_names_to_remove [''pkgsinfo/Foo-1.0'', ''pkgsinfo/nameless''] 0 [cache_nameless])
     = [Some ''Foo'', None]
   \<and> handle_name_removal [''Foo'', ''Bar''] [Some ''Foo'', None] ''managed_installs'' =
       (Inl TypeError, [''Foo'', ''Bar''], [Removing ''Foo'' ''managed_installs''])
   \<and> handle_name_removal [''Foo'', ''Bar''] [None, Some ''Foo''] ''managed_installs'' =
       (Inl TypeError, [''Foo'', ''Bar''], [Removing ''Foo'' ''managed_installs''])"
proof -
  have a: "fst (get_names_to_remove [''pkgsinfo/Foo-1.0'', ''pkgsinfo/nameless''] 0
                  [cache_nameless]) = [Some ''Foo'', None]"
    by code_simp
  have b: "handle_name_removal [''Foo'', ''Bar''] [Some ''Foo'', None] ''managed_installs'' =
       (Inl TypeError, [''Foo'', ''Bar''], [Removing ''Foo'' ''managed_installs''])"
    by code_simp
  have c: "handle_name_removal [''Foo'', ''Bar''] [None, Some ''Foo''] ''managed_installs'' =
       (Inl TypeError, [''Foo'', ''Bar''], [Removing ''Foo'' ''managed_installs''])"
    by code_simp
  show ?thesis by (intro conjI a b c)
qed

lemma handle_name_removal_returns:
  assumes "None \<notin> set names"
  shows "\<exists>out. handle_name_removal product_array names key =
           (Inr (\<exists>item \<in> set product_array. Some item \<in> set names),
            filter (\<lambda>item. Some item \<notin> set names) product_array, out)"
proof (cases "handle_name_removal product_array names key")
  case (fields res product_array' out)
  with assms handle_name_removal_cases [where product_array = product_array and names = names and key = key] show ?thesis
    by (cases res) auto
qed

lemma strip_keys_returns:
  assumes "None \<notin> set names"
  shows "\<exists>out. strip_keys label ks names d changed =
           (None,
            (\<lambda>key. if key \<in> set ks
                   then map_option (filter (\<lambda>item. Some item \<notin> set names)) (d key)
                   else d key),
            changed \<or> (\<exists>key \<in> set ks. \<exists>product_array. d key = Some product_array
                         \<and> (\<exists>item \<in> set product_array. Some item \<in> set names)),
            out)"
proof (induction ks arbitrary: d changed)
  case Nil
  then show ?case by simp
next
  case (Cons k ks)
  let ?keep = "filter (\<lambda>item. Some item \<notin> set names)"
  let ?hit = "\<lambda>product_array. \<exists>item \<in> set product_array. Some item \<in> set names"
  let ?F = "\<lambda>ks d. (\<lambda>key. if key \<in> set ks then map_option ?keep (d key) else d key)"
  let ?C = "\<lambda>ks d. (\<exists>key \<in> set ks. \<exists>product_array. d key = Some product_array
                         \<and> ?hit product_array)"
  show ?case
  proof (cases "d k = None \<or> d k = Some []")
    case True
    then have same: "strip_keys label (k # ks) names d changed
                     = strip_keys label ks names d changed"
      by auto
    from Cons.IH [of d changed] obtain out where
      e: "strip_keys label ks names d changed = (None, ?F ks d, changed \<or> ?C ks d, out)"
      by blast
    have F: "?F ks d = ?F (k # ks) d"
    proof
      fix key show "?F ks d key = ?F (k # ks) d key"
        by (cases "key = k") (use True in auto)
    qed
    have C: "?C ks d = ?C (k # ks) d"
      using True by auto
    show ?thesis unfolding same e F C by (rule exI, rule refl)
  next
    case nonempty: False
    then obtain arr where Some: "d k = Some arr" and False: "arr \<noteq> []"
      by auto
    show ?thesis
    proof -
      let ?d1 = "d(k \<mapsto> ?keep arr)"
      from handle_name_removal_returns [OF assms, of arr "label @ k"] obtain out1 where
        h: "handle_name_removal arr names (label @ k) = (Inr (?hit arr), ?keep arr, out1)"
        by blast
      from Cons.IH [of ?d1 "changed \<or> ?hit arr"] obtain out where
        r: "strip_keys label ks names ?d1 (changed \<or> ?hit arr) =
              (None, ?F ks ?d1, (changed \<or> ?hit arr) \<or> ?C ks ?d1, out)"
        by blast
      have step: "strip_keys label (k # ks) names d changed =
                    (None, ?F ks ?d1, (changed \<or> ?hit arr) \<or> ?C ks ?d1, out1 @ out)"
        using Some False by (simp add: h r)
      have F: "?F ks ?d1 = ?F (k # ks) d"
      proof
        fix key show "?F ks ?d1 key = ?F (k # ks) d key"
          by (cases "key = k") (use Some in auto)
      qed
      let ?other = "\<exists>key \<in> set ks. key \<noteq> k \<and> (\<exists>product_array. d key = Some product_array
                       \<and> ?hit product_array)"
      have C1: "?C ks ?d1 = ?other"
      proof (intro bex_cong refl)
        fix key
        show "(\<exists>product_array. ?d1 key = Some product_array \<and> ?hit product_array)
              = (key \<noteq> k \<and> (\<exists>product_array. d key = Some product_array \<and> ?hit product_array))"
          by (cases "key = k") auto
      qed
      have C2: "?C (k # ks) d = (?hit arr \<or> ?other)"
        using Some by fastforce
      have C: "((changed \<or> ?hit arr) \<or> ?C ks ?d1) = (changed \<or> ?C (k # ks) d)"
        unfolding C1 C2 by blast
      show ?thesis unfolding step F C by (rule exI, rule refl)
    qed
  qed
qed

lemma strip_manifest_keys_returns:
  assumes "None \<notin> set names"
  shows "\<exists>out. strip_keys label manifest_keys names d changed =
           (None, stripped_dict {n. Some n \<in> set names} d,
            changed \<or> removable_in_dict {n. Some n \<in> set names} d, out)"
  unfolding stripped_dict_def removable_in_dict_def mem_Collect_eq
  by (rule strip_keys_returns [OF assms])

lemma strip_conditionals_returns:
  assumes "None \<notin> set names"
  shows "\<exists>out. strip_conditionals names conditionals changed =
           (None, map (stripped_dict {n. Some n \<in> set names}) conditionals,
            changed \<or> (\<exists>conditional \<in> set conditionals.
                          removable_in_dict {n. Some n \<in> set names} conditional),
            out)"
proof (induction conditionals arbitrary: changed)
  case Nil
  then show ?case by simp
next
  case (Cons c cs)
  let ?S = "{n. Some n \<in> set names}"
  from strip_manifest_keys_returns [OF assms, of "''conditional ''" c changed] obtain out1 where
    k: "strip_keys ''conditional '' manifest_keys names c changed =
          (None, stripped_dict ?S c, changed \<or> removable_in_dict ?S c, out1)"
    by blast
  from Cons.IH [of "changed \<or> removable_in_dict ?S c"] obtain out where
    r: "strip_conditionals names cs (changed \<or> removable_in_dict ?S c) =
          (None, map (stripped_dict ?S) cs,
           (changed \<or> removable_in_dict ?S c) \<or> (\<exists>conditional \<in> set cs.
               removable_in_dict ?S conditional), out)"
    by blast
  have "strip_conditionals names (c # cs) changed =
          (None, map (stripped_dict ?S) (c # cs),
           changed \<or> (\<exists>conditional \<in> set (c # cs). removable_in_dict ?S conditional),
           out1 @ out)"
    by (simp add: k r disj_assoc)
  then show ?case by (rule exI)
qed

lemma strip_manifest_returns:
  assumes "None \<notin> set names"
  shows "\<exists>out. strip_manifest names m =
           (None, stripped {n. Some n \<in> set names} m,
            has_removable {n. Some n \<in> set names} m, out)"
proof -
  let ?S = "{n. Some n \<in> set names}"
  from strip_manifest_keys_returns [OF assms, of "[]" "arrays m" False] obtain out1 where
    k: "strip_keys [] manifest_keys names (arrays m) False =
          (None, stripped_dict ?S (arrays m), removable_in_dict ?S (arrays m), out1)"
    by auto
  show ?thesis
  proof (cases "conditional_items m")
    case None
    then have "strip_manifest names m =
                 (None, stripped ?S m, has_removable ?S m, out1)"
      by (simp add: strip_manifest_def k stripped_def has_removable_def)
    then show ?thesis by (rule exI)
  next
    case (Some cs)
    from strip_conditionals_returns [OF assms, of cs "removable_in_dict ?S (arrays m)"]
    obtain out where
      r: "strip_conditionals names cs (removable_in_dict ?S (arrays m)) =
            (None, map (stripped_dict ?S) cs,
             removable_in_dict ?S (arrays m) \<or> (\<exists>conditional \<in> set cs.
                removable_in_dict ?S conditional), out)"
      by blast
    from Some have "strip_manifest names m =
                 (None, stripped ?S m, has_removable ?S m, out1 @ out)"
      by (simp add: strip_manifest_def k r stripped_def has_removable_def)
    then show ?thesis by (rule exI)
  qed
qed

lemma stripped_dict_unchanged:
  assumes "\<not> removable_in_dict S d"
  shows "stripped_dict S d = d"
proof
  fix key
  show "stripped_dict S d key = d key"
  proof (cases "key \<in> set manifest_keys \<and> d key \<noteq> None")
    case True
    then obtain product_array where a: "d key = Some product_array" by auto
    with True assms have "\<forall>item \<in> set product_array. item \<notin> S"
      by (auto simp: removable_in_dict_def)
    then have "filter (\<lambda>item. item \<notin> S) product_array = product_array"
      by (simp add: filter_id_conv)
    with a show ?thesis by (simp add: stripped_dict_def)
  next
    case False
    then show ?thesis by (auto simp: stripped_dict_def)
  qed
qed

lemma stripped_dict_not_removable: "\<not> removable_in_dict S (stripped_dict S d)"
  by (auto simp: removable_in_dict_def stripped_dict_def)

lemma stripped_unchanged:
  assumes "\<not> has_removable S m"
  shows "stripped S m = m"
proof -
  from assms have a: "stripped_dict S (arrays m) = arrays m"
    by (simp add: has_removable_def stripped_dict_unchanged)
  have c: "map_option (map (stripped_dict S)) (conditional_items m) = conditional_items m"
  proof (cases "conditional_items m")
    case None
    then show ?thesis by simp
  next
    case (Some cs)
    with assms have "\<forall>conditional \<in> set cs. \<not> removable_in_dict S conditional"
      by (simp add: has_removable_def)
    then have "map (stripped_dict S) cs = cs"
      by (intro map_idI) (simp add: stripped_dict_unchanged)
    with Some show ?thesis by simp
  qed
  show ?thesis by (simp add: stripped_def a c)
qed

lemma stripped_not_removable: "\<not> has_removable S (stripped S m)"
  by (auto simp: has_removable_def stripped_def stripped_dict_not_removable)

lemma stripped_idem: "stripped S (stripped S m) = stripped S m"
  by (rule stripped_unchanged) (rule stripped_not_removable)

lemma Write_plist_notin_prints: "Write_plist p m \<notin> set (map Print out)"
  by auto

lemma Read_plist_notin_prints: "Read_plist p \<notin> set (map Print out)"
  by auto

lemma Build_cache_notin_prints: "Build_cache \<notin> set (map Print out)"
  by auto

lemma manifests_loop_returns:
  assumes "None \<notin> set names"
  shows "\<exists>trace. manifests_loop names paths r =
           (None,
            r\<lparr>manifest_at :=
                 (\<lambda>p. if p \<in> set paths
                      then map_option (stripped {n. Some n \<in> set names}) (manifest_at r p)
                      else manifest_at r p)\<rparr>,
            trace)
         \<and> (\<forall>p m'. Write_plist p m' \<in> set trace \<longleftrightarrow>
                p \<in> set paths \<and> (\<exists>m. manifest_at r p = Some m
                  \<and> has_removable {n. Some n \<in> set names} m
                  \<and> m' = stripped {n. Some n \<in> set names} m))
         \<and> (\<forall>p. Read_plist p \<in> set trace \<longleftrightarrow> p \<in> set paths)
         \<and> Build_cache \<notin> set trace"
proof (induction paths arbitrary: r)
  case Nil
  then show ?case by simp
next
  case (Cons path paths)
  let ?S = "{n. Some n \<in> set names}"
  let ?F = "\<lambda>paths r p. if p \<in> set paths then map_option (stripped ?S) (manifest_at r p)
                        else manifest_at r p"
  let ?W = "\<lambda>paths r p m'. p \<in> set paths \<and> (\<exists>m. manifest_at r p = Some m
                  \<and> has_removable ?S m \<and> m' = stripped ?S m)"
  show ?case
  proof (cases "manifest_at r path")
    case None
    from Cons.IH [of r] obtain trace where
      run: "manifests_loop names paths r = (None, r\<lparr>manifest_at := ?F paths r\<rparr>, trace)"
      and writes: "\<And>p m'. Write_plist p m' \<in> set trace \<longleftrightarrow> ?W paths r p m'"
      and reads: "\<And>p. Read_plist p \<in> set trace \<longleftrightarrow> p \<in> set paths"
      and nobuild: "Build_cache \<notin> set trace"
      by blast
    let ?trace = "Read_plist path # Print (Error_reading path) # trace"
    have F: "?F paths r = ?F (path # paths) r"
    proof
      fix p show "?F paths r p = ?F (path # paths) r p"
        by (cases "p = path") (use None in auto)
    qed
    have 1: "manifests_loop names (path # paths) r =
               (None, r\<lparr>manifest_at := ?F (path # paths) r\<rparr>, ?trace)"
      unfolding F [symmetric] using None by (simp add: run)
    have 2: "Write_plist p m' \<in> set ?trace \<longleftrightarrow> ?W (path # paths) r p m'" for p m'
      by (cases "p = path") (use None in \<open>auto simp: writes\<close>)
    have 3: "Read_plist p \<in> set ?trace \<longleftrightarrow> p \<in> set (path # paths)" for p
      by (auto simp: reads)
    have 4: "Build_cache \<notin> set ?trace"
      using nobuild by simp
    from 1 2 3 4 show ?thesis by blast
  next
    case (Some m)
    let ?r1 = "r\<lparr>manifest_at := (manifest_at r)(path \<mapsto> stripped ?S m)\<rparr>"
    from strip_manifest_returns [OF assms, of m] obtain out where
      body: "strip_manifest names m = (None, stripped ?S m, has_removable ?S m, out)"
      by blast
    from Cons.IH [of ?r1] obtain trace where
      run: "manifests_loop names paths ?r1 = (None, ?r1\<lparr>manifest_at := ?F paths ?r1\<rparr>, trace)"
      and writes: "\<And>p m'. Write_plist p m' \<in> set trace \<longleftrightarrow> ?W paths ?r1 p m'"
      and reads: "\<And>p. Read_plist p \<in> set trace \<longleftrightarrow> p \<in> set paths"
      and nobuild: "Build_cache \<notin> set trace"
      by blast
    let ?written = "if has_removable ?S m then [Write_plist path (stripped ?S m)] else []"
    let ?trace = "Read_plist path # Print (Looking_in path) # map Print out @ ?written @ trace"
    have same: "?r1 = r" if "\<not> has_removable ?S m"
    proof -
      from that have "stripped ?S m = m" by (rule stripped_unchanged)
      with Some have "(manifest_at r)(path \<mapsto> stripped ?S m) = manifest_at r"
        by (simp add: fun_upd_idem)
      then show ?thesis by simp
    qed
    have F: "?F paths ?r1 = ?F (path # paths) r"
    proof
      fix p show "?F paths ?r1 p = ?F (path # paths) r p"
        by (cases "p = path") (use Some in \<open>auto simp: stripped_idem\<close>)
    qed
    have upd: "?r1\<lparr>manifest_at := ?F paths ?r1\<rparr> = r\<lparr>manifest_at := ?F (path # paths) r\<rparr>"
      unfolding F by simp
    have 1: "manifests_loop names (path # paths) r =
               (None, r\<lparr>manifest_at := ?F (path # paths) r\<rparr>, ?trace)"
    proof (cases "has_removable ?S m")
      case True
      then show ?thesis
        unfolding upd [symmetric] using Some by (simp add: body run)
    next
      case False
      from run have "manifests_loop names paths r = (None, ?r1\<lparr>manifest_at := ?F paths ?r1\<rparr>, trace)"
        unfolding same [OF False] .
      with False show ?thesis
        unfolding upd [symmetric] using Some by (simp add: body)
    qed
    have W1: "?W paths ?r1 p m' \<longleftrightarrow> p \<noteq> path \<and> ?W paths r p m'" for p m'
      by (cases "p = path") (auto simp: stripped_not_removable)
    have W2: "?W (path # paths) r p m' \<longleftrightarrow>
                (p = path \<and> has_removable ?S m \<and> m' = stripped ?S m)
                \<or> (p \<noteq> path \<and> ?W paths r p m')" for p m'
      by (cases "p = path") (use Some in auto)
    have "Write_plist p m' \<in> set ?trace \<longleftrightarrow>
            (p = path \<and> has_removable ?S m \<and> m' = stripped ?S m)
            \<or> Write_plist p m' \<in> set trace" for p m'
      by (auto simp: Write_plist_notin_prints)
    then have 2: "Write_plist p m' \<in> set ?trace \<longleftrightarrow> ?W (path # paths) r p m'" for p m'
      unfolding writes W1 W2 by blast
    have 3: "Read_plist p \<in> set ?trace \<longleftrightarrow> p \<in> set (path # paths)" for p
      by (auto simp: reads)
    have 4: "Build_cache \<notin> set ?trace"
      using nobuild by auto
    from 1 2 3 4 show ?thesis by blast
  qed
qed

lemma final_names_filter:
  "{n. Some n \<in> set (filter (\<lambda>n. n \<notin> set (remdups (map (\<lambda>pkginfo. pkginfo ''name'')
        (dict_values (build_pkginfo_cache r))))) names)} = final_names names r"
  by (force simp: final_names_def image_iff)

lemma stripped_empty: "stripped {} m = m"
  by (rule stripped_unchanged) (simp add: has_removable_def removable_in_dict_def)

lemma map_option_stripped_empty: "map_option (stripped {}) x = x"
  by (cases x) (simp_all add: stripped_empty)

lemma final_names_Nil: "final_names [] r = {}"
  by (simp add: final_names_def)

lemma remove_names_from_manifests_returns:
  assumes "None \<notin> set names"
  shows "\<exists>trace. remove_names_from_manifests names r =
           (None,
            r\<lparr>manifest_at :=
                 (\<lambda>p. if p \<in> set (manifests_glob r)
                      then map_option (stripped (final_names names r)) (manifest_at r p)
                      else manifest_at r p)\<rparr>,
            trace)
         \<and> (\<forall>p m'. Write_plist p m' \<in> set trace \<longleftrightarrow>
                p \<in> set (manifests_glob r) \<and> (\<exists>m. manifest_at r p = Some m
                  \<and> has_removable (final_names names r) m
                  \<and> m' = stripped (final_names names r) m))
         \<and> (\<forall>p. Read_plist p \<in> set trace \<longleftrightarrow> names \<noteq> [] \<and> p \<in> set (manifests_glob r))
         \<and> (Build_cache \<in> set trace \<longleftrightarrow> names \<noteq> [])"
proof (cases "names = []")
  case True
  have "(\<lambda>p. if p \<in> set (manifests_glob r)
             then map_option (stripped (final_names [] r)) (manifest_at r p)
             else manifest_at r p) = manifest_at r"
    by (simp add: fun_eq_iff map_option_stripped_empty final_names_Nil)
  then have "r\<lparr>manifest_at :=
                     (\<lambda>p. if p \<in> set (manifests_glob r)
                          then map_option (stripped (final_names [] r)) (manifest_at r p)
                          else manifest_at r p)\<rparr> = r"
    by simp
  then have "remove_names_from_manifests [] r =
               (None,
                r\<lparr>manifest_at :=
                     (\<lambda>p. if p \<in> set (manifests_glob r)
                          then map_option (stripped (final_names [] r)) (manifest_at r p)
                          else manifest_at r p)\<rparr>,
                [])"
    by (simp add: remove_names_from_manifests_def)
  moreover have "\<not> has_removable (final_names [] r) m" for m
    by (simp add: final_names_Nil has_removable_def removable_in_dict_def)
  ultimately show ?thesis using True by auto
next
  case False
  let ?ns = "filter (\<lambda>n. n \<notin> set (remdups (map (\<lambda>pkginfo. pkginfo ''name'')
               (dict_values (build_pkginfo_cache r))))) names"
  from assms have "None \<notin> set ?ns" by simp
  from manifests_loop_returns [OF this, of "manifests_glob r" r]
  obtain trace where
    run: "manifests_loop ?ns (manifests_glob r) r =
            (None,
             r\<lparr>manifest_at :=
                  (\<lambda>p. if p \<in> set (manifests_glob r)
                       then map_option (stripped (final_names names r)) (manifest_at r p)
                       else manifest_at r p)\<rparr>,
             trace)"
    and writes: "\<And>p m'. Write_plist p m' \<in> set trace \<longleftrightarrow>
                p \<in> set (manifests_glob r) \<and> (\<exists>m. manifest_at r p = Some m
                  \<and> has_removable (final_names names r) m
                  \<and> m' = stripped (final_names names r) m)"
    and reads: "\<And>p. Read_plist p \<in> set trace \<longleftrightarrow> p \<in> set (manifests_glob r)"
    unfolding final_names_filter by blast
  have 1: "remove_names_from_manifests names r =
            (None,
             r\<lparr>manifest_at :=
                  (\<lambda>p. if p \<in> set (manifests_glob r)
                       then map_option (stripped (final_names names r)) (manifest_at r p)
                       else manifest_at r p)\<rparr>,
             Build_cache # trace)"
    unfolding remove_names_from_manifests_def Let_def run using False by simp
  have 2: "Write_plist p m' \<in> set (Build_cache # trace) \<longleftrightarrow>
                p \<in> set (manifests_glob r) \<and> (\<exists>m. manifest_at r p = Some m
                  \<and> has_removable (final_names names r) m
                  \<and> m' = stripped (final_names names r) m)" for p m'
    using writes [of p m'] by simp
  have 3: "Read_plist p \<in> set (Build_cache # trace) \<longleftrightarrow>
             names \<noteq> [] \<and> p \<in> set (manifests_glob r)" for p
    using reads [of p] False by simp
  have 4: "Build_cache \<in> set (Build_cache # trace) \<longleftrightarrow> names \<noteq> []"
    using False by simp
  from 1 2 3 4 show ?thesis by blast
qed

text \<open>
  When the requested names are strings, \<open>remove_names_from_manifests\<close> returns, and
  every manifest it could read is left stripped of exactly \<open>final_names names r\<close>: the
  requested names less the names found in the cache that the call itself rebuilds from
  the repository, whatever cache the planning had; the cache is rebuilt whenever there
  is a name to remove.
\<close>

lemma remove_names_from_manifests_fresh_cache:
  assumes "None \<notin> set names"
  shows "\<exists>trace. remove_names_from_manifests names r =
           (None,
            r\<lparr>manifest_at :=
                 (\<lambda>p. if p \<in> set (manifests_glob r)
                      then map_option (stripped (final_names names r)) (manifest_at r p)
                      else manifest_at r p)\<rparr>,
            trace)
         \<and> (Build_cache \<in> set trace \<longleftrightarrow> names \<noteq> [])"
  using remove_names_from_manifests_returns [OF assms, of r] by blast

lemma remove_names_from_manifests_fresh_cache_example:
  "None \<notin> set example_names
   \<and> (\<exists>trace. remove_names_from_manifests example_names example_repo =
           (None,
            example_repo\<lparr>manifest_at :=
                 (\<lambda>p. if p \<in> set (manifests_glob example_repo)
                      then map_option (stripped (final_names example_names example_repo))
                             (manifest_at example_repo p)
                      else manifest_at example_repo p)\<rparr>,
            trace)
         \<and> (Build_cache \<in> set trace \<longleftrightarrow> example_names \<noteq> []))
   \<and> map_option (\<lambda>m. arrays m ''managed_installs'')
        (manifest_at (fst (snd (remove_names_from_manifests example_names example_repo)))
           ''manifests/site'') = Some (Some [''B''])
   \<and> map_option (\<lambda>m. map_option (map (\<lambda>c. c ''managed_updates'')) (conditional_items m))
        (manifest_at (fst (snd (remove_names_from_manifests example_names example_repo)))
           ''manifests/site'') = Some (Some [Some []])"
proof -
  have h: "None \<notin> set example_names"
    by (simp add: example_names_def)
  have a: "map_option (\<lambda>m. arrays m ''managed_installs'')
        (manifest_at (fst (snd (remove_names_from_manifests example_names example_repo)))
           ''manifests/site'') = Some (Some [''B''])"
    by code_simp
  have b: "map_option (\<lambda>m. map_option (map (\<lambda>c. c ''managed_updates'')) (conditional_items m))
        (manifest_at (fst (snd (remove_names_from_manifests example_names example_repo)))
           ''manifests/site'') = Some (Some [Some []])"
    by code_simp
  show ?thesis
    by (intro conjI h a b remove_names_from_manifests_fresh_cache [OF h])
qed

text \<open>
  When the requested names are strings, the call writes a manifest exactly when the
  file could be read and one of its reference lists, those of its conditional sections
  among them, holds a name to strip, and it writes the stripped manifest; a manifest
  without such an entry is not written. With no requested name the call reads and writes
  nothing and leaves the repository as it is.
\<close>

lemma remove_names_from_manifests_writes:
  assumes "None \<notin> set names"
  shows "(\<forall>p m'. Write_plist p m' \<in> set (snd (snd (remove_names_from_manifests names r))) \<longleftrightarrow>
            p \<in> set (manifests_glob r) \<and> (\<exists>m. manifest_at r p = Some m
               \<and> has_removable (final_names names r) m
               \<and> m' = stripped (final_names names r) m))
         \<and> (\<forall>p. Read_plist p \<in> set (snd (snd (remove_names_from_manifests names r))) \<longleftrightarrow>
               names \<noteq> [] \<and> p \<in> set (manifests_glob r))
         \<and> (names = [] \<longrightarrow> remove_names_from_manifests names r = (None, r, []))"
proof -
  from remove_names_from_manifests_returns [OF assms, of r] obtain trace r' where
    run: "remove_names_from_manifests names r = (None, r', trace)"
    and writes: "\<And>p m'. Write_plist p m' \<in> set trace \<longleftrightarrow>
                p \<in> set (manifests_glob r) \<and> (\<exists>m. manifest_at r p = Some m
                  \<and> has_removable (final_names names r) m
                  \<and> m' = stripped (final_names names r) m)"
    and reads: "\<And>p. Read_plist p \<in> set trace \<longleftrightarrow> names \<noteq> [] \<and> p \<in> set (manifests_glob r)"
    by blast
  have "names = [] \<longrightarrow> remove_names_from_manifests names r = (None, r, [])"
    by (simp add: remove_names_from_manifests_def)
  with writes reads show ?thesis unfolding run by simp
qed

lemma remove_names_from_manifests_writes_example:
  "None \<notin> set example_names
   \<and> (\<forall>p. Read_plist p \<in> set (snd (snd (remove_names_from_manifests example_names example_repo)))
          \<longleftrightarrow> example_names \<noteq> [] \<and> p \<in> set (manifests_glob example_repo))
   \<and> written_paths (snd (snd (remove_names_from_manifests example_names example_repo)))
       = [''manifests/site'']
   \<and> read_paths (snd (snd (remove_names_from_manifests example_names example_repo)))
       = [''manifests/site'', ''manifests/lab'', ''manifests/broken'']
   \<and> remove_names_from_manifests [] example_repo = (None, example_repo, [])"
proof -
  have h: "None \<notin> set example_names"
    by (simp add: example_names_def)
  have a: "written_paths (snd (snd (remove_names_from_manifests example_names example_repo)))
       = [''manifests/site'']"
    by code_simp
  have b: "read_paths (snd (snd (remove_names_from_manifests example_names example_repo)))
       = [''manifests/site'', ''manifests/lab'', ''manifests/broken'']"
    by code_simp
  have h0: "None \<notin> set ([] :: name_set)" by simp
  from remove_names_from_manifests_writes [OF h0, of example_repo]
  have c: "remove_names_from_manifests [] example_repo = (None, example_repo, [])"
    by simp
  from remove_names_from_manifests_writes [OF h, of example_repo]
  have d: "\<forall>p. Read_plist p \<in> set (snd (snd (remove_names_from_manifests example_names example_repo)))
          \<longleftrightarrow> example_names \<noteq> [] \<and> p \<in> set (manifests_glob example_repo)"
    by blast
  show ?thesis
    by (intro conjI h a b c d)
qed

text \<open>
  C3. The requested names \<^verbatim>\<open>{'Foo', None}\<close> come from a removal that took a pkginfo
  without a name. The cache rebuilt from the repository holds neither, so both stay in
  \<^verbatim>\<open>names_to_remove\<close>; the pass then raises \<^verbatim>\<open>TypeError\<close> in the first manifest, in either
  order of the tuple, and \<open>Foo\<close>, a requested name that the rebuilt cache does not hold, is
  still in both manifests of the repository.
\<close>

theorem remove_names_from_manifests_None_strips_nothing:
  "filter (\<lambda>n. n \<notin> set (remdups (map (\<lambda>pkginfo. pkginfo ''name'')
             (dict_values (build_pkginfo_cache repo_nameless))))) names_with_None
     = [Some ''Foo'', None]
   \<and> fst (remove_names_from_manifests names_with_None repo_nameless) = Some TypeError
   \<and> fst (remove_names_from_manifests (rev names_with_None) repo_nameless) = Some TypeError
   \<and> map (\<lambda>path. map_option (\<lambda>m. arrays m ''managed_installs'')
                 (manifest_at (fst (snd (remove_names_from_manifests names_with_None
                                           repo_nameless))) path))
         [''manifests/site'', ''manifests/lab'']
       = [Some (Some [''Foo'']), Some (Some [''Foo''])]"
proof -
  have a: "filter (\<lambda>n. n \<notin> set (remdups (map (\<lambda>pkginfo. pkginfo ''name'')
             (dict_values (build_pkginfo_cache repo_nameless))))) names_with_None
     = [Some ''Foo'', None]"
    by code_simp
  have b: "fst (remove_names_from_manifests names_with_None repo_nameless) = Some TypeError"
    by code_simp
  have c: "fst (remove_names_from_manifests (rev names_with_None) repo_nameless)
             = Some TypeError"
    by code_simp
  have d: "map (\<lambda>path. map_option (\<lambda>m. arrays m ''managed_installs'')
                 (manifest_at (fst (snd (remove_names_from_manifests names_with_None
                                           repo_nameless))) path))
         [''manifests/site'', ''manifests/lab'']
       = [Some (Some [''Foo'']), Some (Some [''Foo''])]"
    by code_simp
  show ?thesis by (intro conjI a b c d)
qed

text \<open>
  C8. With the same names, the first manifest loses \<open>Foo\<close> from \<^verbatim>\<open>managed_installs\<close>
  (\<^verbatim>\<open>changed\<close> is set), then \<^verbatim>\<open>TypeError\<close> is raised at \<open>Bar\<close> in \<^verbatim>\<open>optional_installs\<close>:
  the manifest is not written although one of its lists had an entry removed, and the
  second manifest is never read.
\<close>

theorem remove_names_from_manifests_None_skips_write:
  "fst (strip_manifest names_with_None manifest_two_lists) = Some TypeError
   \<and> arrays (fst (snd (strip_manifest names_with_None manifest_two_lists)))
         ''managed_installs'' = Some []
   \<and> fst (snd (snd (strip_manifest names_with_None manifest_two_lists)))
   \<and> written_paths (snd (snd (remove_names_from_manifests names_with_None repo_nameless)))
       = []
   \<and> read_paths (snd (snd (remove_names_from_manifests names_with_None repo_nameless)))
       = [''manifests/site'']
   \<and> written_paths (snd (snd (remove_names_from_manifests (rev names_with_None)
                                   repo_nameless))) = []"
proof -
  have a: "fst (strip_manifest names_with_None manifest_two_lists) = Some TypeError"
    by code_simp
  have b: "arrays (fst (snd (strip_manifest names_with_None manifest_two_lists)))
         ''managed_installs'' = Some []"
    by code_simp
  have c: "fst (snd (snd (strip_manifest names_with_None manifest_two_lists)))"
    by code_simp
  have d: "written_paths (snd (snd (remove_names_from_manifests names_with_None
                                      repo_nameless))) = []"
    by code_simp
  have e: "read_paths (snd (snd (remove_names_from_manifests names_with_None repo_nameless)))
       = [''manifests/site'']"
    by code_simp
  have f: "written_paths (snd (snd (remove_names_from_manifests (rev names_with_None)
                                   repo_nameless))) = []"
    by code_simp
  show ?thesis by (intro conjI a b c d e f)
qed

lemma update_from_union:
  "update_from cs d used_items =
     used_items \<union> {item. \<exists>collection \<in> set cs. \<exists>items. d collection = Some items
                               \<and> item \<in> set items}"
proof (induction cs arbitrary: used_items)
  case Nil
  then show ?case by simp
next
  case (Cons c cs)
  show ?case
  proof (cases "d c")
    case None
    then show ?thesis by (auto simp: Cons.IH)
  next
    case (Some items)
    then show ?thesis by (cases "items = []") (auto simp: Cons.IH)
  qed
qed

lemma update_from_conditionals_union:
  "update_from_conditionals conditionals used_items =
     used_items \<union> {item. \<exists>conditional \<in> set conditionals. \<exists>collection \<in> set collections.
                       \<exists>items. conditional collection = Some items \<and> item \<in> set items}"
proof (induction conditionals arbitrary: used_items)
  case Nil
  then show ?case by simp
next
  case (Cons c cs)
  show ?case
    unfolding update_from_conditionals.simps Cons.IH update_from_union by auto
qed

lemma manifest_items_loop_union:
  assumes "set names \<subseteq> set (dict_keys manifests)"
  shows "manifest_items_loop names manifests used_items =
     Inr (used_items \<union>
       {item. \<exists>name \<in> set names. \<exists>m. map_of manifests name = Some m
          \<and> (\<exists>collection \<in> set collections.
                (\<exists>items. arrays m collection = Some items \<and> item \<in> set items)
                \<or> (\<exists>conditionals. conditional_items m = Some conditionals
                     \<and> (\<exists>conditional \<in> set conditionals.
                           \<exists>items. conditional collection = Some items \<and> item \<in> set items)))})"
  using assms
proof (induction names arbitrary: used_items)
  case Nil
  then show ?case by simp
next
  case (Cons name names)
  then have "name \<in> fst ` set manifests" by (simp add: dict_keys_def)
  then obtain m where m: "map_of manifests name = Some m"
    by (metis domD dom_map_of_conv_image_fst)
  from Cons.prems have rest: "set names \<subseteq> set (dict_keys manifests)" by simp
  show ?case
  proof (cases "conditional_items m")
    case None
    show ?thesis
      unfolding manifest_items_loop.simps m option.case None Cons.IH [OF rest]
        update_from_conditionals.simps update_from_union
      using m None by auto
  next
    case (Some conditionals)
    show ?thesis
      unfolding manifest_items_loop.simps m option.case Some Cons.IH [OF rest]
        update_from_conditionals_union update_from_union
      using m Some by auto
  qed
qed

text \<open>
  C4. \<open>get_manifest_items\<close> returns, and the set it returns holds exactly the names in
  the four reference lists of every manifest and in the same four lists of every element
  of a manifest's \<^verbatim>\<open>conditional_items\<close>.
\<close>

theorem get_manifest_items_union:
  "get_manifest_items manifests =
     Inr {item. \<exists>name m. map_of manifests name = Some m
          \<and> (\<exists>collection \<in> set [''managed_installs'', ''managed_uninstalls'',
                                  ''optional_installs'', ''managed_updates''].
                (\<exists>items. arrays m collection = Some items \<and> item \<in> set items)
                \<or> (\<exists>conditionals. conditional_items m = Some conditionals
                     \<and> (\<exists>conditional \<in> set conditionals.
                           \<exists>items. conditional collection = Some items \<and> item \<in> set items)))}"
proof -
  have keys: "(\<exists>name \<in> set (dict_keys manifests). \<exists>m. map_of manifests name = Some m \<and> P name m)
              = (\<exists>name m. map_of manifests name = Some m \<and> P name m)" for P
  proof -
    have "name \<in> set (dict_keys manifests)" if "map_of manifests name = Some m" for name m
      using map_of_SomeD [OF that] by (force simp: dict_keys_def)
    then show ?thesis by blast
  qed
  show ?thesis
    unfolding get_manifest_items_def manifest_items_loop_union [OF subset_refl] keys
      Un_empty_left collections_def [symmetric]
    by (rule refl)
qed

lemma get_manifest_items_example:
  "get_manifest_items [(''site'', manifest_site), (''lab'', manifest_lab)] =
     Inr {''A'', ''B'', ''AB''}"
  by code_simp

lemma plist_pkginfo_removals_kept:
  "plist_pkginfo_removals items cache = Inr paths \<Longrightarrow>
   paths = filter (dict_contains cache) (List.map_filter (\<lambda>item. item ''path'') items)
   \<and> (\<forall>item \<in> set items. item ''path'' \<noteq> None)"
proof (induction items arbitrary: paths)
  case Nil
  then show ?case by (simp add: List.map_filter_simps)
next
  case (Cons item items)
  from Cons.prems obtain path where p: "item ''path'' = Some path"
    by (cases "item ''path''") auto
  from Cons.prems p obtain rest where
    r: "plist_pkginfo_removals items cache = Inr rest"
    and paths: "paths = (if dict_contains cache path then path # rest else rest)"
    by (cases "plist_pkginfo_removals items cache") auto
  from Cons.IH [OF r] p paths show ?case
    by (simp add: List.map_filter_simps)
qed

lemma plist_pkginfo_removals_none_present:
  assumes "\<forall>item \<in> set items. \<exists>path. item ''path'' = Some path \<and> \<not> dict_contains cache path"
  shows "plist_pkginfo_removals items cache = Inr []"
  using assms by (induction items) auto

text \<open>
  C5. When \<open>get_removals_from_plist\<close> returns a plan, the plan starts with the paths of
  the plist that are keys of the cache, in their order; and on any later cache that has no
  new key and none of the paths of that plan, the same plist gives the empty plan,
  without an exception.
\<close>

theorem get_removals_from_plist_replay:
  assumes "get_removals_from_plist pkg_prefix removals cache = Inr plan"
    and "set (dict_keys cache') \<subseteq> set (dict_keys cache) - set plan"
  shows "get_removals_from_plist pkg_prefix removals cache' = Inr []
         \<and> (\<exists>items pkg_removals. removals = Some items
              \<and> plan = filter (dict_contains cache)
                         (List.map_filter (\<lambda>item. item ''path'') items) @ pkg_removals)"
proof -
  from assms(1) obtain items where items: "removals = Some items"
    by (cases removals) (auto simp: get_removals_from_plist_def)
  from assms(1) items obtain pkginfo_removals where
    first: "plist_pkginfo_removals items cache = Inr pkginfo_removals"
    by (cases "plist_pkginfo_removals items cache") (auto simp: get_removals_from_plist_def)
  from assms(1) items first obtain pkg_removals where
    plan: "plan = pkginfo_removals @ pkg_removals"
    by (cases "plist_pkg_removals pkg_prefix pkginfo_removals cache")
       (auto simp: get_removals_from_plist_def)
  from plist_pkginfo_removals_kept [OF first] have
    kept: "pkginfo_removals = filter (dict_contains cache)
                                (List.map_filter (\<lambda>item. item ''path'') items)"
    and has_path: "\<forall>item \<in> set items. item ''path'' \<noteq> None"
    by blast+
  have "\<exists>path. item ''path'' = Some path \<and> \<not> dict_contains cache' path"
    if "item \<in> set items" for item
  proof -
    from has_path that obtain path where p: "item ''path'' = Some path" by auto
    have "\<not> dict_contains cache' path"
    proof
      assume "dict_contains cache' path"
      with assms(2) have c: "dict_contains cache path" and n: "path \<notin> set plan"
        by (auto simp: dict_contains_def)
      from that p have "path \<in> set (List.map_filter (\<lambda>item. item ''path'') items)"
        by (auto simp: set_map_filter_conv)
      with c have "path \<in> set pkginfo_removals" by (simp add: kept)
      with n plan show False by simp
    qed
    with p show ?thesis by blast
  qed
  then have "plist_pkginfo_removals items cache' = Inr []"
    by (intro plist_pkginfo_removals_none_present) blast
  then have "get_removals_from_plist pkg_prefix removals cache' = Inr []"
    by (simp add: get_removals_from_plist_def items)
  with items plan kept show ?thesis by blast
qed

theorem get_removals_from_plist_replay_witness:
  "get_removals_from_plist ''/repo/pkgs'' example_plist example_cache
     = Inr [''pkgsinfo/A-1.0'', ''pkgsinfo/A-2.0'', ''/repo/pkgs/a.pkg'']
   \<and> set (dict_keys [(''pkgsinfo/B-1.0'', pkginfo_B1)])
       \<subseteq> set (dict_keys example_cache)
         - set [''pkgsinfo/A-1.0'', ''pkgsinfo/A-2.0'', ''/repo/pkgs/a.pkg'']
   \<and> get_removals_from_plist ''/repo/pkgs'' example_plist [(''pkgsinfo/B-1.0'', pkginfo_B1)]
     = Inr []"
proof -
  have a: "get_removals_from_plist ''/repo/pkgs'' example_plist example_cache
     = Inr [''pkgsinfo/A-1.0'', ''pkgsinfo/A-2.0'', ''/repo/pkgs/a.pkg'']"
    by code_simp
  have b: "set (dict_keys [(''pkgsinfo/B-1.0'', pkginfo_B1)])
       \<subseteq> set (dict_keys example_cache)
         - set [''pkgsinfo/A-1.0'', ''pkgsinfo/A-2.0'', ''/repo/pkgs/a.pkg'']"
    by (simp add: dict_keys_def example_cache_def)
  from get_removals_from_plist_replay [OF a b]
  have c: "get_removals_from_plist ''/repo/pkgs'' example_plist [(''pkgsinfo/B-1.0'', pkginfo_B1)]
     = Inr []"
    by (rule conjunct1)
  show ?thesis by (intro conjI a b c)
qed

lemma warn_about_multiple_refs_iff:
  "Multiple_refs pkg path \<in> set (warn_about_multiple_refs removals cache) \<longleftrightarrow>
     (\<exists>plist location. (path, plist) \<in> set cache \<and> path \<notin> set removals
        \<and> plist ''installer_item_location'' = Some location \<and> location \<in> set removals
        \<and> pkg = plist ''intaller_item_location'')"
proof (induction removals cache rule: warn_about_multiple_refs.induct)
  case (1 removals)
  then show ?case by simp
next
  case (2 removals path' plist' items)
  show ?case
  proof (cases "path' \<notin> set removals
         \<and> (case plist' ''installer_item_location'' of
               None \<Rightarrow> False
             | Some location \<Rightarrow> location \<in> set removals)")
    case True
    then obtain location where "plist' ''installer_item_location'' = Some location"
      "location \<in> set removals" "path' \<notin> set removals"
      by (auto split: option.splits)
    with True 2 show ?thesis by auto
  next
    case False
    with 2 show ?thesis by (auto split: option.splits)
  qed
qed

text \<open>
  C6. In the example repository, removing category \<open>apps\<close> plans to remove the installer
  \<^verbatim>\<open>/repo/pkgs/a.pkg\<close>. The pkginfo of \<open>B\<close> is not removed and its
  \<^verbatim>\<open>installer_item_location\<close> \<^verbatim>\<open>a.pkg\<close> is that installer, joined to the same prefix; yet
  \<open>warn_about_multiple_refs\<close> prints nothing, since it looks the unjoined location up
  in the list of joined paths.
\<close>

theorem warn_about_multiple_refs_misses_joined_path:
  "get_removals_for_categories ''/repo/pkgs'' [''apps''] example_cache
     = [''pkgsinfo/A-1.0'', ''pkgsinfo/A-2.0'', ''/repo/pkgs/a.pkg'']
   \<and> map_of example_cache ''pkgsinfo/B-1.0'' = Some pkginfo_B1
   \<and> ''pkgsinfo/B-1.0''
       \<notin> set (get_removals_for_categories ''/repo/pkgs'' [''apps''] example_cache)
   \<and> map_option (os_path_join ''/repo/pkgs'') (pkginfo_B1 ''installer_item_location'')
       = Some ''/repo/pkgs/a.pkg''
   \<and> warn_about_multiple_refs
         (get_removals_for_categories ''/repo/pkgs'' [''apps''] example_cache) example_cache
       = []"
proof -
  have a: "get_removals_for_categories ''/repo/pkgs'' [''apps''] example_cache
     = [''pkgsinfo/A-1.0'', ''pkgsinfo/A-2.0'', ''/repo/pkgs/a.pkg'']"
    by code_simp
  have b: "map_of example_cache ''pkgsinfo/B-1.0'' = Some pkginfo_B1"
    by (simp add: example_cache_def)
  have c: "''pkgsinfo/B-1.0''
       \<notin> set (get_removals_for_categories ''/repo/pkgs'' [''apps''] example_cache)"
    unfolding a by simp
  have d: "map_option (os_path_join ''/repo/pkgs'') (pkginfo_B1 ''installer_item_location'')
       = Some ''/repo/pkgs/a.pkg''"
    by code_simp
  have e: "warn_about_multiple_refs
         (get_removals_for_categories ''/repo/pkgs'' [''apps''] example_cache) example_cache
       = []"
    by code_simp
  show ?thesis by (intro conjI a b c d e)
qed









lemma os_path_dirname_examples:
  "os_path_dirname ''/archive/pkgs/apps/a.pkg'' = ''/archive/pkgs/apps''
   \<and> os_path_dirname ''a.pkg'' = [] \<and> os_path_dirname ''/a.pkg'' = ''/''
   \<and> os_path_dirname ''//a'' = ''//'' \<and> os_path_dirname ''b//a'' = ''b''"
  by code_simp

lemma replace_first_examples:
  "replace_first ''/repo'' ''/archive'' ''/repo/pkgs/repo'' = ''/archive/pkgs/repo''
   \<and> replace_first [] ''X'' ''ab'' = ''Xab'' \<and> replace_first ''zz'' ''X'' ''ab'' = ''ab''"
  by code_simp

lemma os_walk_example:
  "os_walk ''/repo/pkgs'' example_pkgs =
     [(''/repo/pkgs'', [''Foo.pkg''], [''tool.dmg'']),
      (''/repo/pkgs/Foo.pkg'', [''Contents''], []),
      (''/repo/pkgs/Foo.pkg/Contents'', [], [''Info.plist'', ''PkgInfo''])]"
  by code_simp

lemma splitext_ext_examples:
  "map splitext_ext [''/repo/pkgs/Foo.pkg'', ''/a.b/c'', ''.bashrc'', ''a/..x.MpKg'', ''x.'', ''...'']
     = [''.pkg'', [], [], ''.MpKg'', ''.'', []]"
  by code_simp

lemma split_on_examples:
  "split_on ''/repo/pkgs'' [] ''/repo/pkgs/Foo.pkg/Contents'' = [[], ''/Foo.pkg/Contents'']
   \<and> split_on ''ab'' [] ''xabyabab'' = [''x'', ''y'', [], []]"
  by code_simp

lemma run_report_orphan_bundle:
  "run_report cache_relative ''/repo'' example_pkgs = Inr [''/repo/pkgs/Foo.pkg'']"
  by code_simp

text \<open>
  C7. In the example, \<^verbatim>\<open>/repo/pkgs/Foo.pkg\<close> is recognized as a bundle and a pkginfo names
  it, so the bundle is not reported; but it is then not entered in \<^verbatim>\<open>bundle_packages\<close>
  either, the walk goes on into \<^verbatim>\<open>Foo.pkg/Contents\<close>, and the report lists the files of
  the bundle as orphans.
\<close>

theorem run_report_lists_contents_of_used_bundle:
  "str_upper (splitext_ext ''/repo/pkgs/Foo.pkg'') = ''.PKG''
   \<and> map (\<lambda>pkginfo. pkginfo ''installer_item_location'') (dict_values cache_full_path)
       = [Some ''/repo/pkgs/Foo.pkg'', Some ''tool.dmg'']
   \<and> map fst (os_walk (os_path_join ''/repo'' ''pkgs'') example_pkgs)
       = [''/repo/pkgs'', ''/repo/pkgs/Foo.pkg'', ''/repo/pkgs/Foo.pkg/Contents'']
   \<and> run_report cache_full_path ''/repo'' example_pkgs
       = Inr [''/repo/pkgs/Foo.pkg/Contents/Info.plist'',
              ''/repo/pkgs/Foo.pkg/Contents/PkgInfo'']"
proof -
  have a: "str_upper (splitext_ext ''/repo/pkgs/Foo.pkg'') = ''.PKG''"
    by code_simp
  have b: "map (\<lambda>pkginfo. pkginfo ''installer_item_location'') (dict_values cache_full_path)
       = [Some ''/repo/pkgs/Foo.pkg'', Some ''tool.dmg'']"
    by code_simp
  have c: "map fst (os_walk (os_path_join ''/repo'' ''pkgs'') example_pkgs)
       = [''/repo/pkgs'', ''/repo/pkgs/Foo.pkg'', ''/repo/pkgs/Foo.pkg/Contents'']"
    by code_simp
  have d: "run_report cache_full_path ''/repo'' example_pkgs
       = Inr [''/repo/pkgs/Foo.pkg/Contents/Info.plist'',
              ''/repo/pkgs/Foo.pkg/Contents/PkgInfo'']"
    by code_simp
  show ?thesis by (intro conjI a b c d)
qed

end
